theory Spec2Isabelle
  imports Complex_Main
begin

section \<open>Geometry utilities of the pose tracker (src/pose.py)\<close>

text \<open>
  Boxes are tuples \<open>(x1, y1, x2, y2)\<close> of Python integers: detector rows are truncated
  with \<open>.int()\<close> before use and every ROI bound is produced by \<open>int(...)\<close>.
  Python floats are read as real numbers; \<open>py_int\<close> is Python's \<open>int()\<close> on a
  float, which truncates toward zero.
\<close>

type_synonym box = "int \<times> int \<times> int \<times> int"

definition py_int :: "real \<Rightarrow> int" where
  "py_int r = (if 0 \<le> r then \<lfloor>r\<rfloor> else \<lceil>r\<rceil>)"

text \<open>\<open>_roi_center\<close>, lines 55-58.\<close>

definition roi_center :: "int \<Rightarrow> int \<Rightarrow> int \<Rightarrow> int \<Rightarrow> real \<times> real" where
  "roi_center x1 y1 x2 y2 =
     (let cx = 0.5 * real_of_int (x1 + x2);
          cy = 0.5 * real_of_int (y1 + y2)
      in (cx, cy))"

text \<open>
  \<open>_iou\<close>, lines 273-289. The local variables \<open>inter_area\<close>, \<open>area_a\<close>/\<open>area_b\<close> and
  \<open>union\<close> of the source are the three functions below.
\<close>

definition inter_area :: "box \<Rightarrow> box \<Rightarrow> int" where
  "inter_area a b =
     (case a of (ax1, ay1, ax2, ay2) \<Rightarrow> case b of (bx1, by1, bx2, by2) \<Rightarrow>
        let inter_x1 = max ax1 bx1;
            inter_y1 = max ay1 by1;
            inter_x2 = min ax2 bx2;
            inter_y2 = min ay2 by2;
            inter_w = max 0 (inter_x2 - inter_x1);
            inter_h = max 0 (inter_y2 - inter_y1)
        in inter_w * inter_h)"

definition box_area :: "box \<Rightarrow> int" where
  "box_area a = (case a of (ax1, ay1, ax2, ay2) \<Rightarrow> max 0 (ax2 - ax1) * max 0 (ay2 - ay1))"

definition union_area :: "box \<Rightarrow> box \<Rightarrow> int" where
  "union_area a b = box_area a + box_area b - inter_area a b"

definition iou :: "box \<Rightarrow> box \<Rightarrow> real" where
  "iou a b =
     (if union_area a b \<le> 0 then 0
      else real_of_int (inter_area a b) / real_of_int (union_area a b))"

text \<open>
  \<open>_expand_and_clip_bbox\<close>, lines 229-261. The first branch is the early return for a
  box of zero or negative width or height; it works on the integer arguments themselves.
\<close>

definition expand_and_clip_bbox ::
  "int \<Rightarrow> int \<Rightarrow> int \<Rightarrow> int \<Rightarrow> int \<Rightarrow> int \<Rightarrow> real \<Rightarrow> box" where
  "expand_and_clip_bbox x1 y1 x2 y2 image_width image_height margin_ratio =
     (let bx1 = real_of_int x1; by1 = real_of_int y1;
          bx2 = real_of_int x2; by2 = real_of_int y2;
          bw = max 0 (bx2 - bx1);
          bh = max 0 (by2 - by1)
      in if bw \<le> 0 \<or> bh \<le> 0 then
           (max 0 (min (image_width - 1) x1), max 0 (min (image_height - 1) y1),
            max 0 (min image_width x2), max 0 (min image_height y2))
         else
           let margin_w = bw * margin_ratio;
               margin_h = bh * margin_ratio;
               ex1 = bx1 - margin_w;
               ey1 = by1 - margin_h;
               ex2 = bx2 + margin_w;
               ey2 = by2 + margin_h;
               ex1 = max 0 (min ex1 (real_of_int image_width - 1));
               ey1 = max 0 (min ey1 (real_of_int image_height - 1));
               ex2 = max 0 (min ex2 (real_of_int image_width - 0));
               ey2 = max 0 (min ey2 (real_of_int image_height - 0));
               ex2 = (if ex2 \<le> ex1 then min (real_of_int image_width * 1) (ex1 + 1) else ex2);
               ey2 = (if ey2 \<le> ey1 then min (real_of_int image_height * 1) (ey1 + 1) else ey2)
           in (py_int ex1, py_int ey1, py_int ex2, py_int ey2))"

text \<open>\<open>_smooth_box\<close>, lines 263-271.\<close>

definition smooth_box :: "box \<Rightarrow> box \<Rightarrow> real \<Rightarrow> box" where
  "smooth_box old_box new_box alpha =
     (case old_box of (ox1, oy1, ox2, oy2) \<Rightarrow> case new_box of (nx1, ny1, nx2, ny2) \<Rightarrow>
        let sx1 = py_int (alpha * real_of_int nx1 + (1 - alpha) * real_of_int ox1);
            sy1 = py_int (alpha * real_of_int ny1 + (1 - alpha) * real_of_int oy1);
            sx2 = py_int (alpha * real_of_int nx2 + (1 - alpha) * real_of_int ox2);
            sy2 = py_int (alpha * real_of_int ny2 + (1 - alpha) * real_of_int oy2)
        in (sx1, sy1, sx2, sy2))"

text \<open>
  Two notions used to state properties of \<open>iou\<close>: the open rectangle a box covers, and a
  box of positive width and height.
\<close>

definition box_interior :: "box \<Rightarrow> (real \<times> real) set" where
  "box_interior a =
     (case a of (ax1, ay1, ax2, ay2) \<Rightarrow>
        {(x, y). real_of_int ax1 < x \<and> x < real_of_int ax2 \<and>
                 real_of_int ay1 < y \<and> y < real_of_int ay2})"

definition positive_box :: "box \<Rightarrow> bool" where
  "positive_box a = (case a of (ax1, ay1, ax2, ay2) \<Rightarrow> ax1 < ax2 \<and> ay1 < ay2)"


section \<open>The ROI tracker\<close>

text \<open>
  An ROI is the dictionary built at lines 71 and 176-179. The \<open>pose\<close> entry (a MediaPipe
  Pose instance) is the number of the instance: instances are numbered in the order in which
  they are constructed.
\<close>

record roi =
  rx1 :: int
  ry1 :: int
  rx2 :: int
  ry2 :: int
  lost :: int
  pose :: nat
  overlap_streak :: int

definition roi_box :: "roi \<Rightarrow> box" where
  "roi_box r = (rx1 r, ry1 r, rx2 r, ry2 r)"

text \<open>
  The fields of \<open>PoseProcessor\<close> that the tracker reads or writes, and three counters for
  what it does to its collaborators: the Pose instances constructed so far, the instances
  on which \<open>close()\<close> was called (in call order), and the number of \<open>yolo.predict\<close> calls
  that returned. \<open>yolo\<close> is \<open>False\<close> while \<open>self.yolo\<close> is \<open>None\<close>.
\<close>

record processor =
  frame_threshold :: int
  smooth_alpha :: real
  yolo :: bool
  frame_counter :: int
  poses_created :: nat
  poses_closed :: "nat list"
  predict_calls :: nat

text \<open>
  \<open>PoseProcessor.__init__\<close>, lines 33-53, with its parameter \<open>frame_threshold\<close>, whose
  default is 10. The constructor builds the single-person estimator \<open>self.pose\<close>, which is
  instance number 0.
\<close>

definition default_frame_threshold :: int where
  "default_frame_threshold = 10"

definition init_processor :: "int \<Rightarrow> processor" where
  "init_processor frame_threshold_arg =
     \<lparr>frame_threshold = frame_threshold_arg, smooth_alpha = 0.5, yolo = False,
      frame_counter = 0, poses_created = 1, poses_closed = [], predict_calls = 0\<rparr>"

text \<open>
  Every raise of the per-frame code is a value of \<open>error\<close>: an exception out of a pose
  estimator's \<open>process\<close>, an exception out of \<open>yolo.predict\<close>, the \<open>RuntimeError\<close> of
  \<open>_ensure_yolo\<close>, and the \<open>AttributeError\<close> of calling \<open>predict\<close> on \<open>None\<close>.
\<close>

datatype error = EstimatorError | DetectorError | YoloLoadError | AttributeError

text \<open>A landmark is \<open>(x, y, z, visibility)\<close>; a detector row is \<open>(x1, y1, x2, y2, conf, cls)\<close>.\<close>

type_synonym landmark = "real \<times> real \<times> real \<times> real"

type_synonym detection = "real \<times> real \<times> real \<times> real \<times> real \<times> real"

datatype est_result = EstRaises | NoLandmarks | Landmarks "landmark list"

datatype det_result = DetRaises | Detections "detection list"

text \<open>
  What the collaborators answer during one call: the estimator of the ROI at a slot index on
  its crop of the frame, the detector on the frame, \<open>scipy\<close>'s \<open>linear_sum_assignment\<close> on
  a cost matrix (the zipped \<open>row_ind, col_ind\<close>; nothing is assumed of it), and whether
  loading the YOLO weights succeeds. \<open>estimate\<close> and \<open>detect\<close> are the answers to the first
  call on this frame; \<open>estimate_retry env i k\<close> and \<open>detect_retry env k\<close> are what the
  estimator of slot \<open>i\<close> and the detector would answer to a \<open>k\<close>-th repetition of that
  call. The source has no second call, so no definition below reads the last two.
\<close>

record frame_env =
  estimate :: "nat \<Rightarrow> est_result"
  detect :: det_result
  assignment :: "real list list \<Rightarrow> (nat \<times> nat) list"
  yolo_loads :: bool
  estimate_retry :: "nat \<Rightarrow> nat \<Rightarrow> est_result"
  detect_retry :: "nat \<Rightarrow> det_result"

text \<open>
  \<open>_ensure_yolo\<close>, lines 295-306. The calls of \<open>status_callback\<close> only report to the
  user interface and are left out.
\<close>

definition ensure_yolo :: "frame_env \<Rightarrow> processor \<Rightarrow> error + processor" where
  "ensure_yolo env p =
     (if \<not> yolo p then
        (if yolo_loads env then Inr (p\<lparr>yolo := True\<rparr>) else Inl YoloLoadError)
      else Inr p)"

text \<open>\<open>self.yolo.predict(image_rgb, size=640)\<close> followed by \<open>results.xyxy[0]\<close>.\<close>

definition yolo_predict :: "frame_env \<Rightarrow> processor \<Rightarrow> error + (detection list \<times> processor)" where
  "yolo_predict env p =
     (if \<not> yolo p then Inl AttributeError
      else case detect env of
             DetRaises \<Rightarrow> Inl DetectorError
           | Detections boxes \<Rightarrow> Inr (boxes, p\<lparr>predict_calls := predict_calls p + 1\<rparr>))"

text \<open>\<open>[b[:4].int().tolist() for b in boxes if int(b[5]) == 0]\<close>, lines 67 and 110.\<close>

fun person_boxes_of :: "detection list \<Rightarrow> box list" where
  "person_boxes_of [] = []"
| "person_boxes_of ((x1, y1, x2, y2, conf, cls) # boxes) =
     (if py_int cls = 0
      then (py_int x1, py_int y1, py_int x2, py_int y2) # person_boxes_of boxes
      else person_boxes_of boxes)"

text \<open>The loop of lines 68-71, appending one ROI per person box.\<close>

fun seed_boxes ::
  "int \<Rightarrow> int \<Rightarrow> real \<Rightarrow> box list \<Rightarrow> roi list \<times> processor \<Rightarrow> roi list \<times> processor" where
  "seed_boxes image_width image_height margin_ratio [] s = s"
| "seed_boxes image_width image_height margin_ratio ((x1, y1, x2, y2) # bs) (locked_rois, p) =
     (case expand_and_clip_bbox x1 y1 x2 y2 image_width image_height margin_ratio of
        (x1e, y1e, x2e, y2e) \<Rightarrow>
          let roi_pose = poses_created p;
              p = p\<lparr>poses_created := Suc (poses_created p)\<rparr>
          in seed_boxes image_width image_height margin_ratio bs
               (locked_rois @ [\<lparr>rx1 = x1e, ry1 = y1e, rx2 = x2e, ry2 = y2e, lost = 0,
                                 pose = roi_pose, overlap_streak = 0\<rparr>], p))"

text \<open>\<open>_seed_rois_if_needed\<close>, lines 60-72.\<close>

definition seed_rois_if_needed ::
  "frame_env \<Rightarrow> processor \<Rightarrow> int \<Rightarrow> int \<Rightarrow> roi list \<Rightarrow> real \<Rightarrow> error + (roi list \<times> processor)" where
  "seed_rois_if_needed env p image_width image_height locked_rois margin_ratio =
     (case ensure_yolo env p of
        Inl e \<Rightarrow> Inl e
      | Inr p \<Rightarrow>
          if locked_rois = [] then
            (case yolo_predict env p of
               Inl e \<Rightarrow> Inl e
             | Inr (boxes, p) \<Rightarrow>
                 Inr (seed_boxes image_width image_height margin_ratio
                        (person_boxes_of boxes) (locked_rois, p)))
          else Inr (locked_rois, p))"

subsection \<open>Tracking, lines 86-104\<close>

definition remap_landmark :: "roi \<Rightarrow> int \<Rightarrow> int \<Rightarrow> landmark \<Rightarrow> landmark" where
  "remap_landmark r image_width image_height lmk =
     (case lmk of (x, y, z, visibility) \<Rightarrow>
        ((x * real_of_int (rx2 r - rx1 r) + real_of_int (rx1 r)) / real_of_int image_width,
         (y * real_of_int (ry2 r - ry1 r) + real_of_int (ry1 r)) / real_of_int image_height,
         z, visibility))"

text \<open>
  The \<open>try\<close> block of lines 93-100: dividing a float by the integer 0 raises
  \<open>ZeroDivisionError\<close> at the first landmark, the \<open>except\<close> swallows it, and nothing is
  appended to \<open>outputs\<close> (\<open>None\<close>).
\<close>

definition remap_landmarks :: "roi \<Rightarrow> int \<Rightarrow> int \<Rightarrow> landmark list \<Rightarrow> landmark list option" where
  "remap_landmarks r image_width image_height lms =
     (if lms \<noteq> [] \<and> (image_width = 0 \<or> image_height = 0) then None
      else Some (map (remap_landmark r image_width image_height) lms))"

text \<open>
  The loop over \<open>enumerate(locked_rois)\<close>: the result is \<open>outputs\<close>, the ROIs as mutated
  and \<open>rois_needing_reseed\<close>. The estimator call of line 89 is outside every \<open>try\<close>.
\<close>

fun track_rois ::
  "frame_env \<Rightarrow> int \<Rightarrow> int \<Rightarrow> int \<Rightarrow> nat \<Rightarrow> roi list \<Rightarrow>
   error + ((nat \<times> landmark list) list \<times> roi list \<times> nat list)" where
  "track_rois env image_width image_height threshold person_id [] = Inr ([], [], [])"
| "track_rois env image_width image_height threshold person_id (r # rs) =
     (case estimate env person_id of
        EstRaises \<Rightarrow> Inl EstimatorError
      | Landmarks lms \<Rightarrow>
          (case track_rois env image_width image_height threshold (Suc person_id) rs of
             Inl e \<Rightarrow> Inl e
           | Inr (outputs, rs', need) \<Rightarrow>
               Inr ((case remap_landmarks r image_width image_height lms of
                       Some mapped \<Rightarrow> [(person_id, mapped)]
                     | None \<Rightarrow> []) @ outputs,
                    r\<lparr>lost := 0\<rparr> # rs', need))
      | NoLandmarks \<Rightarrow>
          (case track_rois env image_width image_height threshold (Suc person_id) rs of
             Inl e \<Rightarrow> Inl e
           | Inr (outputs, rs', need) \<Rightarrow>
               Inr (outputs, r\<lparr>lost := lost r + 1\<rparr> # rs',
                    (if lost r + 1 \<ge> threshold then [person_id] else []) @ need)))"

subsection \<open>Reseed, lines 107-179\<close>

definition reserved_iou :: real where
  "reserved_iou = 0.5"

definition lambda_iou :: real where
  "lambda_iou = 0.5"

text \<open>
  \<open>healthy_boxes\<close> of lines 113-114, the test of lines 119-122 and 163-166 against them,
  and the filter of lines 116-125.
\<close>

definition healthy_boxes :: "roi list \<Rightarrow> box list" where
  "healthy_boxes locked_rois = map roi_box (filter (\<lambda>r. lost r = 0) locked_rois)"

definition conflicts :: "box list \<Rightarrow> box \<Rightarrow> bool" where
  "conflicts hbs b = list_ex (\<lambda>hb. iou b hb \<ge> reserved_iou) hbs"

definition filter_reserved :: "box list \<Rightarrow> box list \<Rightarrow> box list" where
  "filter_reserved hbs person_boxes = filter (\<lambda>b. \<not> conflicts hbs b) person_boxes"

text \<open>
  \<open>diag\<close> of line 136 and one entry of the cost matrix, lines 141-147. The source keeps the
  matrix in a float32 array; an entry is read here as the real number the expression denotes.
\<close>

definition frame_diag :: "int \<Rightarrow> int \<Rightarrow> real" where
  "frame_diag image_width image_height =
     sqrt (real_of_int (image_width * image_width + image_height * image_height))"

definition cost_entry :: "int \<Rightarrow> int \<Rightarrow> roi \<Rightarrow> box \<Rightarrow> real" where
  "cost_entry image_width image_height rr d =
     (case roi_center (rx1 rr) (ry1 rr) (rx2 rr) (ry2 rr) of (cx, cy) \<Rightarrow>
      case d of (x1, y1, x2, y2) \<Rightarrow>
      case roi_center x1 y1 x2 y2 of (dcx, dcy) \<Rightarrow>
        let diag = frame_diag image_width image_height;
            dx = dcx - cx;
            dy = dcy - cy;
            dist_norm = sqrt (dx * dx + dy * dy) / max (1 / 1000000) diag;
            iou_val = iou (rx1 rr, ry1 rr, rx2 rr, ry2 rr) d
        in dist_norm + lambda_iou * (1 - iou_val))"

definition cost_matrix ::
  "int \<Rightarrow> int \<Rightarrow> roi list \<Rightarrow> nat list \<Rightarrow> box list \<Rightarrow> real list list" where
  "cost_matrix image_width image_height locked_rois rois_needing_reseed person_boxes =
     map (\<lambda>idx. map (cost_entry image_width image_height (locked_rois ! idx)) person_boxes)
         rois_needing_reseed"

definition max_dist :: "int \<Rightarrow> int \<Rightarrow> real" where
  "max_dist image_width image_height = 0.08 * frame_diag image_width image_height"

text \<open>The body of the loop over \<open>zip(row_ind, col_ind)\<close>, lines 156-179.\<close>

definition reseed_pair ::
  "int \<Rightarrow> int \<Rightarrow> box list \<Rightarrow> nat list \<Rightarrow> box list \<Rightarrow> real list list \<Rightarrow> nat \<times> nat \<Rightarrow>
   roi list \<times> processor \<Rightarrow> roi list \<times> processor" where
  "reseed_pair image_width image_height hbs rois_needing_reseed person_boxes cost rc s =
     (case rc of (r_i, c_j) \<Rightarrow> case s of (locked_rois, p) \<Rightarrow>
        if r_i < length rois_needing_reseed \<and> c_j < length person_boxes then
          if cost ! r_i ! c_j \<le> max_dist image_width image_height then
            let roi_index = rois_needing_reseed ! r_i in
            case person_boxes ! c_j of (bx1, by1, bx2, by2) \<Rightarrow>
              let nb = expand_and_clip_bbox bx1 by1 bx2 by2 image_width image_height 0.25 in
              if conflicts hbs nb then (locked_rois, p)
              else
                let roi = locked_rois ! roi_index;
                    p = p\<lparr>poses_closed := poses_closed p @ [pose roi]\<rparr>
                in case smooth_box (roi_box roi) nb (smooth_alpha p) of (sx1, sy1, sx2, sy2) \<Rightarrow>
                     (locked_rois[roi_index :=
                        roi\<lparr>rx1 := sx1, ry1 := sy1, rx2 := sx2, ry2 := sy2,
                            pose := poses_created p, lost := 0\<rparr>],
                      p\<lparr>poses_created := Suc (poses_created p)\<rparr>)
          else (locked_rois, p)
        else (locked_rois, p))"

text \<open>
  Lines 107-179 as a whole: nothing happens without a slot needing reseed; otherwise the
  detector runs once, outside every \<open>try\<close>, and the loop runs over the pairs that
  \<open>linear_sum_assignment\<close> returns for the cost matrix.
\<close>

definition reseed_step ::
  "frame_env \<Rightarrow> int \<Rightarrow> int \<Rightarrow> nat list \<Rightarrow> roi list \<times> processor \<Rightarrow>
   error + (roi list \<times> processor)" where
  "reseed_step env image_width image_height rois_needing_reseed s =
     (case s of (locked_rois, p) \<Rightarrow>
        if rois_needing_reseed = [] then Inr (locked_rois, p)
        else
          case yolo_predict env p of
            Inl e \<Rightarrow> Inl e
          | Inr (boxes, p) \<Rightarrow>
              let hbs = healthy_boxes locked_rois;
                  person_boxes = filter_reserved hbs (person_boxes_of boxes)
              in if person_boxes = [] then Inr (locked_rois, p)
                 else
                   let cost = cost_matrix image_width image_height locked_rois
                                rois_needing_reseed person_boxes
                   in Inr (fold (reseed_pair image_width image_height hbs rois_needing_reseed
                                   person_boxes cost)
                                (assignment env cost) (locked_rois, p)))"

subsection \<open>Deduplication, lines 184-215\<close>

text \<open>One comparison of the slots \<open>i\<close> and \<open>j\<close>, lines 194-210.\<close>

definition dedup_pair ::
  "nat \<Rightarrow> nat \<Rightarrow> roi list \<times> nat set \<times> processor \<Rightarrow> roi list \<times> nat set \<times> processor" where
  "dedup_pair i j s =
     (case s of (rs, to_remove, p) \<Rightarrow>
        let iou_val = iou (roi_box (rs ! i)) (roi_box (rs ! j)) in
        if iou_val > 0.55 then
          let rs = rs[i := (rs ! i)\<lparr>overlap_streak := overlap_streak (rs ! i) + 1\<rparr>];
              rs = rs[j := (rs ! j)\<lparr>overlap_streak := overlap_streak (rs ! j) + 1\<rparr>]
          in if overlap_streak (rs ! i) \<ge> 3 \<and> overlap_streak (rs ! j) \<ge> 3 then
               let drop = (if lost (rs ! i) \<ge> lost (rs ! j) then i else j)
               in (rs, insert drop to_remove,
                   p\<lparr>poses_closed := poses_closed p @ [pose (rs ! drop)]\<rparr>)
             else (rs, to_remove, p)
        else
          let rs = rs[i := (rs ! i)\<lparr>overlap_streak := 0\<rparr>];
              rs = rs[j := (rs ! j)\<lparr>overlap_streak := 0\<rparr>]
          in (rs, to_remove, p))"

text \<open>
  The loops over \<open>j\<close> and over \<open>i\<close>, lines 188-193, with the set \<open>to_remove\<close>; a slot
  marked while it is the outer index stays the outer index until its inner loop ends.
\<close>

fun dedup_inner ::
  "nat \<Rightarrow> nat list \<Rightarrow> roi list \<times> nat set \<times> processor \<Rightarrow> roi list \<times> nat set \<times> processor" where
  "dedup_inner i [] s = s"
| "dedup_inner i (j # js) (rs, to_remove, p) =
     (if j \<in> to_remove then dedup_inner i js (rs, to_remove, p)
      else dedup_inner i js (dedup_pair i j (rs, to_remove, p)))"

fun dedup_outer ::
  "nat \<Rightarrow> nat list \<Rightarrow> roi list \<times> nat set \<times> processor \<Rightarrow> roi list \<times> nat set \<times> processor" where
  "dedup_outer n [] s = s"
| "dedup_outer n (i # is) (rs, to_remove, p) =
     (if i \<in> to_remove then dedup_outer n is (rs, to_remove, p)
      else dedup_outer n is (dedup_inner i [Suc i..<n] (rs, to_remove, p)))"

text \<open>
  Lines 186-213. Nothing inside the surrounding \<open>try\<close> can raise: every key read exists
  and an exception of \<open>close()\<close> is swallowed where it occurs.
\<close>

definition dedup :: "roi list \<Rightarrow> processor \<Rightarrow> roi list \<times> processor" where
  "dedup locked_rois p =
     (let n = length locked_rois in
      case dedup_outer n [0..<n] (locked_rois, {}, p) of (rs, to_remove, p) \<Rightarrow>
        (if to_remove \<noteq> {}
         then map snd (filter (\<lambda>(idx, r). idx \<notin> to_remove) (enumerate 0 rs))
         else rs, p))"

subsection \<open>The per-frame step, lines 74-217\<close>

text \<open>
  \<open>_process_multiperson_frame\<close>: the early return on an empty list, tracking, reseed, the
  frame counter of line 182, deduplication. The result is \<open>outputs\<close>, the ROI list and the
  processor, or the exception that ended the call.
\<close>

definition process_multiperson_frame ::
  "frame_env \<Rightarrow> processor \<Rightarrow> int \<Rightarrow> int \<Rightarrow> roi list \<Rightarrow>
   error + ((nat \<times> landmark list) list \<times> roi list \<times> processor)" where
  "process_multiperson_frame env p image_width image_height locked_rois =
     (if locked_rois = [] then Inr ([], locked_rois, p)
      else
        case track_rois env image_width image_height (frame_threshold p) 0 locked_rois of
          Inl e \<Rightarrow> Inl e
        | Inr (outputs, locked_rois, rois_needing_reseed) \<Rightarrow>
            (case reseed_step env image_width image_height rois_needing_reseed (locked_rois, p) of
               Inl e \<Rightarrow> Inl e
             | Inr (locked_rois, p) \<Rightarrow>
                 let p = p\<lparr>frame_counter := frame_counter p + 1\<rparr> in
                 case dedup locked_rois p of (locked_rois, p) \<Rightarrow>
                   Inr (outputs, locked_rois, p)))"


subsection \<open>Auxiliary notions for the proofs\<close>

text \<open>
  What the second branch of \<open>expand_and_clip_bbox\<close> computes along one axis, from the near
  edge \<open>a\<close>, the far edge \<open>b\<close>, the frame extent \<open>n\<close> and the margin ratio \<open>m\<close>.
\<close>

definition clip_axis :: "int \<Rightarrow> int \<Rightarrow> int \<Rightarrow> real \<Rightarrow> int \<times> int" where
  "clip_axis a b n m =
     (let e1 = max 0 (min (real_of_int a - max 0 (real_of_int b - real_of_int a) * m)
                          (real_of_int n - 1));
          e2 = max 0 (min (real_of_int b + max 0 (real_of_int b - real_of_int a) * m)
                          (real_of_int n - 0));
          e2 = (if e2 \<le> e1 then min (real_of_int n * 1) (e1 + 1) else e2)
      in (py_int e1, py_int e2))"

text \<open>
  The ROI that line 71 appends for a person box, given the number of the Pose instance
  constructed for it.
\<close>

definition seeded_roi :: "int \<Rightarrow> int \<Rightarrow> real \<Rightarrow> nat \<times> box \<Rightarrow> roi" where
  "seeded_roi image_width image_height margin_ratio nb =
     (case nb of (n, (x1, y1, x2, y2)) \<Rightarrow>
        case expand_and_clip_bbox x1 y1 x2 y2 image_width image_height margin_ratio of
          (x1e, y1e, x2e, y2e) \<Rightarrow>
            \<lparr>rx1 = x1e, ry1 = y1e, rx2 = x2e, ry2 = y2e, lost = 0, pose = n,
             overlap_streak = 0\<rparr>)"

text \<open>A box whose four coordinates lie between 0 and the frame extent.\<close>

definition box_in_frame :: "int \<Rightarrow> int \<Rightarrow> box \<Rightarrow> bool" where
  "box_in_frame image_width image_height b =
     (case b of (x1, y1, x2, y2) \<Rightarrow>
        0 \<le> x1 \<and> x1 \<le> image_width \<and> 0 \<le> x2 \<and> x2 \<le> image_width \<and>
        0 \<le> y1 \<and> y1 \<le> image_height \<and> 0 \<le> y2 \<and> y2 \<le> image_height)"

text \<open>The box that line 160 computes from a detection.\<close>

definition expand_detection :: "int \<Rightarrow> int \<Rightarrow> box \<Rightarrow> box" where
  "expand_detection image_width image_height d =
     (case d of (x1, y1, x2, y2) \<Rightarrow>
        expand_and_clip_bbox x1 y1 x2 y2 image_width image_height 0.25)"

text \<open>
  The ROI that lines 176-179 leave in a slot that is reseeded onto the detection \<open>d\<close>:
  the bounds are the old bounds smoothed towards the expanded detection, the estimator is
  the instance \<open>n\<close> constructed for it, \<open>lost\<close> is 0 and \<open>overlap_streak\<close> stays.
\<close>

definition reseed_onto :: "int \<Rightarrow> int \<Rightarrow> real \<Rightarrow> nat \<Rightarrow> roi \<Rightarrow> box \<Rightarrow> roi" where
  "reseed_onto image_width image_height alpha n r d =
     (case smooth_box (roi_box r) (expand_detection image_width image_height d) alpha of
        (sx1, sy1, sx2, sy2) \<Rightarrow>
          r\<lparr>rx1 := sx1, ry1 := sy1, rx2 := sx2, ry2 := sy2, pose := n, lost := 0\<rparr>)"

text \<open>
  \<open>reseed_chain w h alpha slots dets rs rs'\<close>: the list \<open>rs'\<close> comes from \<open>rs\<close> by reseeding,
  one after the other, slots taken from \<open>slots\<close> onto detections taken from \<open>dets\<close>, and by
  nothing else.
\<close>

inductive reseed_chain ::
  "int \<Rightarrow> int \<Rightarrow> real \<Rightarrow> nat set \<Rightarrow> box set \<Rightarrow> roi list \<Rightarrow> roi list \<Rightarrow> bool"
  for image_width image_height alpha slots dets rs where
  chain_start: "reseed_chain image_width image_height alpha slots dets rs rs"
| chain_reseed:
    "reseed_chain image_width image_height alpha slots dets rs rs1 \<Longrightarrow>
     k \<in> slots \<Longrightarrow> d \<in> dets \<Longrightarrow>
     reseed_chain image_width image_height alpha slots dets rs
       (rs1[k := reseed_onto image_width image_height alpha n (rs1 ! k) d])"

subsection \<open>Example inputs\<close>

text \<open>
  Two ROIs side by side in a 640 x 480 frame; the second has missed nine frames in a row.
  A processor as the constructor leaves it, after \<open>_ensure_yolo\<close> has loaded the detector.
\<close>

definition example_rois :: "roi list" where
  "example_rois =
     [\<lparr>rx1 = 100, ry1 = 100, rx2 = 300, ry2 = 400, lost = 0, pose = 1, overlap_streak = 0\<rparr>,
      \<lparr>rx1 = 400, ry1 = 100, rx2 = 600, ry2 = 400, lost = 9, pose = 2, overlap_streak = 0\<rparr>]"

text \<open>A healthy ROI and a stale one that has reached the threshold.\<close>

definition example_reseed_rois :: "roi list" where
  "example_reseed_rois =
     [\<lparr>rx1 = 0, ry1 = 0, rx2 = 100, ry2 = 100, lost = 0, pose = 1, overlap_streak = 0\<rparr>,
      \<lparr>rx1 = 200, ry1 = 0, rx2 = 300, ry2 = 100, lost = 10, pose = 2, overlap_streak = 0\<rparr>]"

text \<open>
  Two ROIs on the same person: their boxes have IoU 0.9. The estimator of the first finds
  landmarks in every frame, the estimator of the second never does. \<open>twin_a\<close> and
  \<open>twin_b\<close> give the two ROIs with the counters they have reached.
\<close>

definition twin_a :: "int \<Rightarrow> roi" where
  "twin_a streak =
     \<lparr>rx1 = 0, ry1 = 0, rx2 = 100, ry2 = 100, lost = 0, pose = 1, overlap_streak = streak\<rparr>"

definition twin_b :: "int \<Rightarrow> int \<Rightarrow> roi" where
  "twin_b misses streak =
     \<lparr>rx1 = 0, ry1 = 0, rx2 = 100, ry2 = 90, lost = misses, pose = 2, overlap_streak = streak\<rparr>"

definition example_twin_env :: frame_env where
  "example_twin_env =
     \<lparr>estimate = (\<lambda>i. if i = 0 then Landmarks [] else NoLandmarks), detect = Detections [],
      assignment = (\<lambda>c. []), yolo_loads = True,
          estimate_retry = (\<lambda>i k. NoLandmarks), detect_retry = (\<lambda>k. Detections [])\<rparr>"

definition example_processor :: processor where
  "example_processor = (init_processor default_frame_threshold)\<lparr>yolo := True, poses_created := 3\<rparr>"


section \<open>Properties of the geometry utilities\<close>

subsection \<open>Intersection over union\<close>

lemma inter_area_commute: "inter_area a b = inter_area b a"
  by (cases a; cases b) (simp add: inter_area_def max.commute min.commute)

lemma union_area_commute: "union_area a b = union_area b a"
  by (simp add: union_area_def inter_area_commute)

lemma iou_commute: "iou a b = iou b a"
  by (simp add: iou_def inter_area_commute union_area_commute)

lemma inter_area_nonneg: "0 \<le> inter_area a b"
  by (cases a; cases b) (simp add: inter_area_def Let_def)

lemma box_area_nonneg: "0 \<le> box_area a"
  by (cases a) (simp add: box_area_def)

lemma inter_area_le_left: "inter_area a b \<le> box_area a"
proof -
  obtain ax1 ay1 ax2 ay2 where a: "a = (ax1, ay1, ax2, ay2)" by (cases a) auto
  obtain bx1 by1 bx2 by2 where b: "b = (bx1, by1, bx2, by2)" by (cases b) auto
  define iw where "iw = max 0 (min ax2 bx2 - max ax1 bx1)"
  define ih where "ih = max 0 (min ay2 by2 - max ay1 by1)"
  define aw where "aw = max 0 (ax2 - ax1)"
  define ah where "ah = max 0 (ay2 - ay1)"
  have w: "iw \<le> aw" unfolding iw_def aw_def by linarith
  have h: "ih \<le> ah" unfolding ih_def ah_def by linarith
  have nn: "0 \<le> ih" "0 \<le> aw" by (simp_all add: ih_def aw_def)
  have le: "iw * ih \<le> aw * ah" by (rule mult_mono[OF w h nn(2) nn(1)])
  have i: "inter_area a b = iw * ih" by (simp add: a b inter_area_def Let_def iw_def ih_def)
  have ar: "box_area a = aw * ah" by (simp add: a box_area_def aw_def ah_def)
  show ?thesis using le by (simp only: i ar)
qed

lemma inter_area_le_right: "inter_area a b \<le> box_area b"
  using inter_area_le_left[of b a] by (simp add: inter_area_commute)

lemma inter_le_union: "inter_area a b \<le> union_area a b"
  using inter_area_le_left[of a b] inter_area_le_right[of a b] inter_area_nonneg[of a b]
  by (simp add: union_area_def)

lemma union_area_nonneg: "0 \<le> union_area a b"
  using inter_le_union[of a b] inter_area_nonneg[of a b] by linarith

lemma iou_nonneg: "0 \<le> iou a b"
  using inter_area_nonneg[of a b] by (simp add: iou_def)

lemma iou_le_one: "iou a b \<le> 1"
  using inter_le_union[of a b] by (simp add: iou_def)

lemma iou_union_zero: "union_area a b = 0 \<Longrightarrow> iou a b = 0"
  by (simp add: iou_def)

text \<open>A positive intersection area gives a point that lies inside both boxes.\<close>

lemma inter_area_pos_point:
  assumes "0 < inter_area a b"
  shows "box_interior a \<inter> box_interior b \<noteq> {}"
proof -
  obtain ax1 ay1 ax2 ay2 where a: "a = (ax1, ay1, ax2, ay2)" by (cases a) auto
  obtain bx1 by1 bx2 by2 where b: "b = (bx1, by1, bx2, by2)" by (cases b) auto
  let ?w = "max 0 (min ax2 bx2 - max ax1 bx1)"
  let ?h = "max 0 (min ay2 by2 - max ay1 by1)"
  from assms have p: "0 < ?w * ?h" by (simp add: a b inter_area_def Let_def)
  have "0 \<le> ?w" "0 \<le> ?h" by simp_all
  with p have "0 < ?w" "0 < ?h" by (auto simp: zero_less_mult_iff)
  then have x: "max ax1 bx1 < min ax2 bx2" and y: "max ay1 by1 < min ay2 by2" by auto
  define px where "px = (real_of_int (max ax1 bx1) + real_of_int (min ax2 bx2)) / 2"
  define py where "py = (real_of_int (max ay1 by1) + real_of_int (min ay2 by2)) / 2"
  from x have "real_of_int (max ax1 bx1) < px" "px < real_of_int (min ax2 bx2)"
    by (simp_all add: px_def)
  then have px: "real_of_int ax1 < px" "real_of_int bx1 < px"
                "px < real_of_int ax2" "px < real_of_int bx2"
    by (auto simp: max_def min_def split: if_splits)
  from y have "real_of_int (max ay1 by1) < py" "py < real_of_int (min ay2 by2)"
    by (simp_all add: py_def)
  then have py: "real_of_int ay1 < py" "real_of_int by1 < py"
                "py < real_of_int ay2" "py < real_of_int by2"
    by (auto simp: max_def min_def split: if_splits)
  have "(px, py) \<in> box_interior a \<inter> box_interior b"
    using px py by (simp add: a b box_interior_def)
  then show ?thesis by blast
qed

lemma iou_disjoint: "box_interior a \<inter> box_interior b = {} \<Longrightarrow> iou a b = 0"
  using inter_area_pos_point[of a b] inter_area_nonneg[of a b]
  by (cases "inter_area a b = 0") (auto simp: iou_def)

lemma inter_area_self: "inter_area a a = box_area a"
  by (cases a) (simp add: inter_area_def box_area_def)

lemma union_area_self: "union_area a a = box_area a"
  by (simp add: union_area_def inter_area_self)

lemma box_area_pos: "positive_box a \<Longrightarrow> 0 < box_area a"
  by (cases a) (simp add: positive_box_def box_area_def)

lemma box_area_zero: "\<not> positive_box a \<Longrightarrow> box_area a = 0"
  by (cases a) (auto simp add: positive_box_def box_area_def max_def)

lemma iou_self: "iou a a = (if positive_box a then 1 else 0)"
  using box_area_pos[of a] box_area_zero[of a]
  by (auto simp: iou_def union_area_self inter_area_self)

text \<open>
  C9, as stated: \<open>iou(a, a) == 1.0\<close> for every box \<open>a\<close>. It fails at the box
  \<open>(5, 5, 5, 5)\<close>, whose union area with itself is 0, so that the guard of line 287 returns 0.
\<close>

theorem iou_self_degenerate: "iou (5, 5, 5, 5) (5, 5, 5, 5) = 0 \<and> iou (5, 5, 5, 5) (5, 5, 5, 5) \<noteq> 1"
  by (simp add: iou_def union_area_def box_area_def inter_area_def)

text \<open>
  C9, amended: \<open>iou\<close> is symmetric; it is 0 whenever the union area is 0 (the division is
  never reached then); it is 0 for every two boxes whose interiors share no point; and
  \<open>iou a a\<close> is 1 for every box of positive width and height, and 0 for every other box.
\<close>

theorem iou_properties:
  "iou a b = iou b a
   \<and> (union_area a b = 0 \<longrightarrow> iou a b = 0)
   \<and> (box_interior a \<inter> box_interior b = {} \<longrightarrow> iou a b = 0)
   \<and> (positive_box a \<longrightarrow> iou a a = 1)
   \<and> (\<not> positive_box a \<longrightarrow> iou a a = 0)"
  using iou_commute[of a b] iou_union_zero[of a b] iou_disjoint[of a b] iou_self[of a]
  by simp

theorem iou_properties_witness:
  "iou (0, 0, 2, 2) (1, 1, 3, 3) = iou (1, 1, 3, 3) (0, 0, 2, 2)
   \<and> union_area (5, 5, 5, 5) (7, 7, 7, 7) = 0 \<and> iou (5, 5, 5, 5) (7, 7, 7, 7) = 0
   \<and> box_interior (0, 0, 1, 1) \<inter> box_interior (2, 2, 3, 3) = {}
   \<and> iou (0, 0, 1, 1) (2, 2, 3, 3) = 0
   \<and> positive_box (0, 0, 2, 2) \<and> iou (0, 0, 2, 2) (0, 0, 2, 2) = 1
   \<and> \<not> positive_box (5, 5, 5, 5) \<and> iou (5, 5, 5, 5) (5, 5, 5, 5) = 0"
proof -
  have u: "union_area (5, 5, 5, 5) (7, 7, 7, 7) = 0"
    by (simp add: union_area_def box_area_def inter_area_def)
  have d: "box_interior (0, 0, 1, 1) \<inter> box_interior (2, 2, 3, 3) = {}"
    by (auto simp: box_interior_def)
  have p: "positive_box (0, 0, 2, 2)" by (simp add: positive_box_def)
  have n: "\<not> positive_box (5, 5, 5, 5)" by (simp add: positive_box_def)
  show ?thesis
    using u d p n
      iou_properties[of "(0, 0, 2, 2)" "(1, 1, 3, 3)"]
      iou_properties[of "(5, 5, 5, 5)" "(7, 7, 7, 7)"]
      iou_properties[of "(0, 0, 1, 1)" "(2, 2, 3, 3)"]
    by simp
qed

subsection \<open>Expansion and clipping\<close>

lemma expand_and_clip_positive:
  "x1 < x2 \<Longrightarrow> y1 < y2 \<Longrightarrow>
   expand_and_clip_bbox x1 y1 x2 y2 w h m =
     (fst (clip_axis x1 x2 w m), fst (clip_axis y1 y2 h m),
      snd (clip_axis x1 x2 w m), snd (clip_axis y1 y2 h m))"
  by (simp add: expand_and_clip_bbox_def clip_axis_def Let_def)

lemma expand_and_clip_degenerate:
  "x2 \<le> x1 \<or> y2 \<le> y1 \<Longrightarrow>
   expand_and_clip_bbox x1 y1 x2 y2 w h m =
     (max 0 (min (w - 1) x1), max 0 (min (h - 1) y1), max 0 (min w x2), max 0 (min h y2))"
  by (auto simp add: expand_and_clip_bbox_def Let_def)

lemma clip_axis_bounds:
  assumes "1 \<le> n"
  shows "0 \<le> fst (clip_axis a b n m)" "fst (clip_axis a b n m) \<le> n - 1"
        "0 \<le> snd (clip_axis a b n m)" "snd (clip_axis a b n m) \<le> n"
proof -
  define e1 where
    "e1 = max 0 (min (real_of_int a - max 0 (real_of_int b - real_of_int a) * m) (real_of_int n - 1))"
  define e2 where
    "e2 = max 0 (min (real_of_int b + max 0 (real_of_int b - real_of_int a) * m) (real_of_int n - 0))"
  define e2' where "e2' = (if e2 \<le> e1 then min (real_of_int n * 1) (e1 + 1) else e2)"
  have c: "clip_axis a b n m = (py_int e1, py_int e2')"
    by (simp add: clip_axis_def Let_def e1_def e2_def e2'_def)
  have e1: "0 \<le> e1" "e1 \<le> real_of_int (n - 1)" using assms by (auto simp: e1_def)
  have e2: "0 \<le> e2" "e2 \<le> real_of_int n" using assms by (auto simp: e2_def)
  have e2': "0 \<le> e2'" "e2' \<le> real_of_int n" using e1 e2 assms by (auto simp: e2'_def)
  show "0 \<le> fst (clip_axis a b n m)" using e1 by (simp add: c py_int_def)
  show "fst (clip_axis a b n m) \<le> n - 1"
    using e1 by (simp add: c py_int_def floor_le_iff del: of_int_diff) linarith
  show "0 \<le> snd (clip_axis a b n m)" using e2' by (simp add: c py_int_def)
  show "snd (clip_axis a b n m) \<le> n" using e2' by (simp add: c py_int_def floor_le_iff)
qed

text \<open>
  Along one axis the clipped edges stay strictly ordered unless the expanded far edge falls
  strictly between 0 and 1, where truncation sends it to 0.
\<close>

lemma clip_axis_strict:
  assumes n: "1 \<le> n" and ab: "a < b" and m: "0 \<le> m"
      and far: "real_of_int b + real_of_int (b - a) * m \<le> 0
                \<or> 1 \<le> real_of_int b + real_of_int (b - a) * m"
  shows "fst (clip_axis a b n m) < snd (clip_axis a b n m)"
proof -
  define e1 where
    "e1 = max 0 (min (real_of_int a - max 0 (real_of_int b - real_of_int a) * m) (real_of_int n - 1))"
  define e2 where
    "e2 = max 0 (min (real_of_int b + max 0 (real_of_int b - real_of_int a) * m) (real_of_int n - 0))"
  define e2' where "e2' = (if e2 \<le> e1 then min (real_of_int n * 1) (e1 + 1) else e2)"
  have c: "clip_axis a b n m = (py_int e1, py_int e2')"
    by (simp add: clip_axis_def Let_def e1_def e2_def e2'_def)
  have e1: "0 \<le> e1" "e1 \<le> real_of_int n - 1" using n by (auto simp: e1_def)
  have e2: "0 \<le> e2" "e2 \<le> real_of_int n" using n by (auto simp: e2_def)
  have e2': "0 \<le> e2'" using e1 e2 n by (auto simp: e2'_def)
  have goal: "\<lfloor>e1\<rfloor> < \<lfloor>e2'\<rfloor>"
  proof (cases "e2 \<le> e1")
    case True
    then have "e2' = e1 + 1" using e1 by (simp add: e2'_def)
    then show ?thesis by simp
  next
    case False
    then have eq: "e2' = e2" by (simp add: e2'_def)
    define mw where "mw = real_of_int (b - a) * m"
    have mw: "0 \<le> mw" using ab m by (simp add: mw_def)
    have e1v: "e1 = max 0 (min (real_of_int a - mw) (real_of_int n - 1))"
      using ab by (simp add: e1_def mw_def)
    have e2v: "e2 = max 0 (min (real_of_int b + mw) (real_of_int n))"
      using ab by (simp add: e2_def mw_def)
    have le1: "\<lfloor>e1\<rfloor> \<le> n - 1" using e1 by (simp add: floor_le_iff) linarith
    show ?thesis
    proof (cases "real_of_int n \<le> real_of_int b + mw")
      case True
      then have "e2 = real_of_int n" using n by (simp add: e2v)
      then show ?thesis using le1 eq by simp
    next
      case nb: False
      then have e2b: "e2 = max 0 (real_of_int b + mw)" by (simp add: e2v)
      from far have "real_of_int b + mw \<le> 0 \<or> 1 \<le> real_of_int b + mw" by (simp add: mw_def)
      then show ?thesis
      proof
        assume "real_of_int b + mw \<le> 0"
        then have "e2 = 0" by (simp add: e2b)
        with False e1 show ?thesis by simp
      next
        assume one: "1 \<le> real_of_int b + mw"
        then have e2c: "e2 = real_of_int b + mw" by (simp add: e2b)
        show ?thesis
        proof (cases "real_of_int a - mw \<le> 0")
          case True
          then have "e1 = 0" using n by (simp add: e1v)
          moreover have "1 \<le> e2" using one e2c by simp
          then have "1 \<le> \<lfloor>e2\<rfloor>" by (simp only: le_floor_iff)
          ultimately show ?thesis using eq by simp
        next
          case False
          then have "e1 \<le> real_of_int a - mw" by (simp add: e1v)
          then have "e1 \<le> real_of_int a" using mw by linarith
          then have "\<lfloor>e1\<rfloor> \<le> a" by (simp add: floor_le_iff)
          moreover have "real_of_int b \<le> e2" using mw e2c by simp
          then have "b \<le> \<lfloor>e2\<rfloor>" by (simp only: le_floor_iff)
          ultimately show ?thesis using ab eq by simp
        qed
      qed
    qed
  qed
  show ?thesis using goal e1 e2' by (simp add: c py_int_def)
qed

lemma clamp_bounds:
  fixes n :: int
  assumes "1 \<le> n"
  shows "0 \<le> max 0 (min (n - 1) v)" "max 0 (min (n - 1) v) \<le> n - 1"
        "0 \<le> max 0 (min n v)" "max 0 (min n v) \<le> n"
  using assms by linarith+

text \<open>
  For every box and every frame of positive size, both corners of the result lie in the
  frame; the order of the corners is a different matter.
\<close>

lemma expand_and_clip_in_frame:
  assumes "1 \<le> w" "1 \<le> h"
      and "expand_and_clip_bbox x1 y1 x2 y2 w h m = (nx1, ny1, nx2, ny2)"
  shows "0 \<le> nx1 \<and> nx1 \<le> w - 1 \<and> 0 \<le> nx2 \<and> nx2 \<le> w
         \<and> 0 \<le> ny1 \<and> ny1 \<le> h - 1 \<and> 0 \<le> ny2 \<and> ny2 \<le> h"
proof (cases "x1 < x2 \<and> y1 < y2")
  case True
  then show ?thesis
    using assms(3) clip_axis_bounds[OF assms(1), of x1 x2 m] clip_axis_bounds[OF assms(2), of y1 y2 m]
    by (simp add: expand_and_clip_positive)
next
  case False
  then have "x2 \<le> x1 \<or> y2 \<le> y1" by auto
  then have "(max 0 (min (w - 1) x1), max 0 (min (h - 1) y1), max 0 (min w x2), max 0 (min h y2))
             = (nx1, ny1, nx2, ny2)"
    using assms(3) by (simp only: expand_and_clip_degenerate)
  then have eq: "nx1 = max 0 (min (w - 1) x1)" "ny1 = max 0 (min (h - 1) y1)"
                "nx2 = max 0 (min w x2)" "ny2 = max 0 (min h y2)"
    by simp_all
  show ?thesis
    unfolding eq
    using clamp_bounds[OF assms(1), of x1] clamp_bounds[OF assms(1), of x2]
          clamp_bounds[OF assms(2), of y1] clamp_bounds[OF assms(2), of y2]
    by blast
qed

text \<open>
  For a box of positive width and height whose far corner is at least \<open>(1, 1)\<close>, and a
  margin ratio that is not negative, the result is a box of positive width and height
  inside the frame.
\<close>

lemma expand_and_clip_ordered:
  assumes "1 \<le> w" "1 \<le> h" "x1 < x2" "y1 < y2" "1 \<le> x2" "1 \<le> y2" "0 \<le> m"
      and "expand_and_clip_bbox x1 y1 x2 y2 w h m = (nx1, ny1, nx2, ny2)"
  shows "0 \<le> nx1 \<and> nx1 < nx2 \<and> nx2 \<le> w \<and> 0 \<le> ny1 \<and> ny1 < ny2 \<and> ny2 \<le> h"
proof -
  have "0 \<le> real_of_int (x2 - x1) * m" "0 \<le> real_of_int (y2 - y1) * m"
    using assms by simp_all
  then have fx: "1 \<le> real_of_int x2 + real_of_int (x2 - x1) * m"
    and fy: "1 \<le> real_of_int y2 + real_of_int (y2 - y1) * m"
    using assms(5,6) by linarith+
  have sx: "fst (clip_axis x1 x2 w m) < snd (clip_axis x1 x2 w m)"
    using clip_axis_strict[OF assms(1) assms(3) assms(7)] fx by blast
  have sy: "fst (clip_axis y1 y2 h m) < snd (clip_axis y1 y2 h m)"
    using clip_axis_strict[OF assms(2) assms(4) assms(7)] fy by blast
  show ?thesis
    using assms(8) sx sy expand_and_clip_in_frame[OF assms(1,2,8)]
    by (simp add: expand_and_clip_positive[OF assms(3,4)])
qed

text \<open>
  C1: the result of \<open>expand_and_clip_bbox\<close> satisfies \<open>x1 < x2\<close> and \<open>y1 < y2\<close> for every
  input box. The docstring of the function promises the same. The code does not deliver it:
  a detection of zero width takes the early return of line 239, which clips every coordinate
  by itself and leaves \<open>x1 = x2\<close>; and a box of positive width whose expanded far edge
  falls between 0 and 1 passes the ordering check of line 256 as a float and collapses when
  line 261 truncates it.
\<close>

theorem expand_and_clip_collapses:
  "expand_and_clip_bbox 5 5 5 20 10 30 0.25 = (5, 5, 5, 20)
   \<and> expand_and_clip_bbox (- 1) 0 0 10 10 10 0.25 = (0, 0, 0, 10)"
  by (simp add: expand_and_clip_bbox_def Let_def py_int_def)


section \<open>Properties of the tracking step\<close>

lemma track_rois_raises:
  "\<exists>i<length rs. estimate env (pid + i) = EstRaises \<Longrightarrow>
   track_rois env w h thr pid rs = Inl EstimatorError"
proof (induction rs arbitrary: pid)
  case Nil
  then show ?case by simp
next
  case (Cons r rs)
  show ?case
  proof (cases "estimate env pid = EstRaises")
    case True
    then show ?thesis by simp
  next
    case False
    from Cons.prems obtain i where i: "i < length (r # rs)" "estimate env (pid + i) = EstRaises"
      by blast
    with False obtain k where k: "i = Suc k" by (cases i) auto
    with i have "\<exists>j<length rs. estimate env (Suc pid + j) = EstRaises" by auto
    then have "track_rois env w h thr (Suc pid) rs = Inl EstimatorError" by (rule Cons.IH)
    then show ?thesis by (cases "estimate env pid") simp_all
  qed
qed

lemma track_rois_error: "track_rois env w h thr pid rs = Inl e \<Longrightarrow> e = EstimatorError"
  by (induction rs arbitrary: pid) (auto split: est_result.splits sum.splits)

lemma track_rois_returns:
  "\<forall>i<length rs. estimate env (pid + i) \<noteq> EstRaises \<Longrightarrow>
   \<exists>res. track_rois env w h thr pid rs = Inr res"
proof (induction rs arbitrary: pid)
  case Nil
  then show ?case by simp
next
  case (Cons r rs)
  have "\<forall>i<length rs. estimate env (Suc pid + i) \<noteq> EstRaises"
    using Cons.prems by auto
  then obtain res where res: "track_rois env w h thr (Suc pid) rs = Inr res"
    using Cons.IH by blast
  have "estimate env pid \<noteq> EstRaises" using Cons.prems by force
  then show ?case using res by (cases "estimate env pid"; cases res) auto
qed

lemma track_rois_slots:
  "track_rois env w h thr pid rs = Inr (outs, rs', need) \<Longrightarrow>
   length rs' = length rs
   \<and> fst ` set outs \<subseteq> {pid..<pid + length rs}
   \<and> set need \<subseteq> {pid..<pid + length rs}
   \<and> (\<forall>i<length rs.
        (\<forall>lms. estimate env (pid + i) = Landmarks lms \<longrightarrow>
             rs' ! i = (rs ! i)\<lparr>lost := 0\<rparr>
           \<and> pid + i \<notin> set need
           \<and> (\<forall>out. (pid + i, out) \<in> set outs \<longleftrightarrow>
                 remap_landmarks (rs ! i) w h lms = Some out))
      \<and> (estimate env (pid + i) = NoLandmarks \<longrightarrow>
             rs' ! i = (rs ! i)\<lparr>lost := lost (rs ! i) + 1\<rparr>
           \<and> (pid + i \<in> set need \<longleftrightarrow> thr \<le> lost (rs ! i) + 1)
           \<and> pid + i \<notin> fst ` set outs)
      \<and> estimate env (pid + i) \<noteq> EstRaises)"
proof (induction rs arbitrary: pid outs rs' need)
  case Nil
  then show ?case by simp
next
  case (Cons r rs)
  from Cons.prems obtain outs0 rs0 need0 where
    t: "track_rois env w h thr (Suc pid) rs = Inr (outs0, rs0, need0)"
    by (cases "estimate env pid"; cases "track_rois env w h thr (Suc pid) rs") auto
  note ih = Cons.IH[OF t]
  have len0: "length rs0 = length rs" using ih by blast
  have notin: "pid \<notin> fst ` set outs0" "pid \<notin> set need0" using ih by auto
  have sub: "fst ` set outs0 \<subseteq> {pid..<pid + length (r # rs)}"
            "set need0 \<subseteq> {pid..<pid + length (r # rs)}" using ih by auto
  have tail: "\<And>k. k < length rs \<Longrightarrow>
        (\<forall>lms. estimate env (pid + Suc k) = Landmarks lms \<longrightarrow>
             rs0 ! k = (rs ! k)\<lparr>lost := 0\<rparr>
           \<and> pid + Suc k \<notin> set need0
           \<and> (\<forall>out. (pid + Suc k, out) \<in> set outs0 \<longleftrightarrow>
                 remap_landmarks (rs ! k) w h lms = Some out))
      \<and> (estimate env (pid + Suc k) = NoLandmarks \<longrightarrow>
             rs0 ! k = (rs ! k)\<lparr>lost := lost (rs ! k) + 1\<rparr>
           \<and> (pid + Suc k \<in> set need0 \<longleftrightarrow> thr \<le> lost (rs ! k) + 1)
           \<and> pid + Suc k \<notin> fst ` set outs0)
      \<and> estimate env (pid + Suc k) \<noteq> EstRaises"
    using ih by simp
  show ?case
  proof (cases "estimate env pid")
    case EstRaises
    with Cons.prems show ?thesis by simp
  next
    case NoLandmarks
    with Cons.prems t have o: "outs = outs0" and r: "rs' = r\<lparr>lost := lost r + 1\<rparr> # rs0"
      and n: "need = (if lost r + 1 \<ge> thr then [pid] else []) @ need0"
      by auto
    have head: "pid \<in> set need \<longleftrightarrow> thr \<le> lost r + 1" using notin n by auto
    have other: "\<And>k. pid + Suc k \<in> set need \<longleftrightarrow> pid + Suc k \<in> set need0" using n by auto
    show ?thesis
    proof (intro conjI)
      show "length rs' = length (r # rs)" by (simp add: r len0)
      show "fst ` set outs \<subseteq> {pid..<pid + length (r # rs)}" using sub o by simp
      show "set need \<subseteq> {pid..<pid + length (r # rs)}" using sub n by auto
    next
      show "\<forall>i<length (r # rs). (\<forall>lms. estimate env (pid + i) = Landmarks lms \<longrightarrow>
             rs' ! i = ((r # rs) ! i)\<lparr>lost := 0\<rparr>
           \<and> pid + i \<notin> set need
           \<and> (\<forall>out. (pid + i, out) \<in> set outs \<longleftrightarrow>
                 remap_landmarks ((r # rs) ! i) w h lms = Some out))
      \<and> (estimate env (pid + i) = NoLandmarks \<longrightarrow>
             rs' ! i = ((r # rs) ! i)\<lparr>lost := lost ((r # rs) ! i) + 1\<rparr>
           \<and> (pid + i \<in> set need \<longleftrightarrow> thr \<le> lost ((r # rs) ! i) + 1)
           \<and> pid + i \<notin> fst ` set outs)
      \<and> estimate env (pid + i) \<noteq> EstRaises"
      proof (rule allI, rule impI)
      fix i assume i: "i < length (r # rs)"
      show "(\<forall>lms. estimate env (pid + i) = Landmarks lms \<longrightarrow>
             rs' ! i = ((r # rs) ! i)\<lparr>lost := 0\<rparr>
           \<and> pid + i \<notin> set need
           \<and> (\<forall>out. (pid + i, out) \<in> set outs \<longleftrightarrow>
                 remap_landmarks ((r # rs) ! i) w h lms = Some out))
      \<and> (estimate env (pid + i) = NoLandmarks \<longrightarrow>
             rs' ! i = ((r # rs) ! i)\<lparr>lost := lost ((r # rs) ! i) + 1\<rparr>
           \<and> (pid + i \<in> set need \<longleftrightarrow> thr \<le> lost ((r # rs) ! i) + 1)
           \<and> pid + i \<notin> fst ` set outs)
      \<and> estimate env (pid + i) \<noteq> EstRaises"
      proof (cases i)
        case 0
        then show ?thesis using NoLandmarks head notin o r by simp
      next
        case (Suc k)
        then have "k < length rs" using i by simp
        from tail[OF this] show ?thesis unfolding Suc o r other by simp
      qed
      qed
    qed
  next
    case (Landmarks lms)
    define emitted where "emitted = (case remap_landmarks r w h lms of
                       Some mapped \<Rightarrow> [(pid, mapped)] | None \<Rightarrow> [])"
    from Landmarks Cons.prems t have o: "outs = emitted @ outs0" and r: "rs' = r\<lparr>lost := 0\<rparr> # rs0"
      and n: "need = need0"
      by (auto simp: emitted_def)
    have head: "\<And>out. (pid, out) \<in> set outs \<longleftrightarrow> remap_landmarks r w h lms = Some out"
      using notin o by (force simp: emitted_def split: option.splits)
    have other: "\<And>k out. (pid + Suc k, out) \<in> set outs \<longleftrightarrow> (pid + Suc k, out) \<in> set outs0"
      using o by (auto simp: emitted_def split: option.splits)
    have other': "\<And>k. pid + Suc k \<in> fst ` set outs \<longleftrightarrow> pid + Suc k \<in> fst ` set outs0"
      using o by (auto simp: emitted_def split: option.splits)
    have femit: "fst ` set emitted \<subseteq> {pid}" by (auto simp: emitted_def split: option.splits)
    show ?thesis
    proof (intro conjI)
      show "length rs' = length (r # rs)" by (simp add: r len0)
      show "fst ` set outs \<subseteq> {pid..<pid + length (r # rs)}" using sub femit o by auto
      show "set need \<subseteq> {pid..<pid + length (r # rs)}" using sub n by auto
    next
      show "\<forall>i<length (r # rs). (\<forall>lms. estimate env (pid + i) = Landmarks lms \<longrightarrow>
             rs' ! i = ((r # rs) ! i)\<lparr>lost := 0\<rparr>
           \<and> pid + i \<notin> set need
           \<and> (\<forall>out. (pid + i, out) \<in> set outs \<longleftrightarrow>
                 remap_landmarks ((r # rs) ! i) w h lms = Some out))
      \<and> (estimate env (pid + i) = NoLandmarks \<longrightarrow>
             rs' ! i = ((r # rs) ! i)\<lparr>lost := lost ((r # rs) ! i) + 1\<rparr>
           \<and> (pid + i \<in> set need \<longleftrightarrow> thr \<le> lost ((r # rs) ! i) + 1)
           \<and> pid + i \<notin> fst ` set outs)
      \<and> estimate env (pid + i) \<noteq> EstRaises"
      proof (rule allI, rule impI)
      fix i assume i: "i < length (r # rs)"
      show "(\<forall>lms. estimate env (pid + i) = Landmarks lms \<longrightarrow>
             rs' ! i = ((r # rs) ! i)\<lparr>lost := 0\<rparr>
           \<and> pid + i \<notin> set need
           \<and> (\<forall>out. (pid + i, out) \<in> set outs \<longleftrightarrow>
                 remap_landmarks ((r # rs) ! i) w h lms = Some out))
      \<and> (estimate env (pid + i) = NoLandmarks \<longrightarrow>
             rs' ! i = ((r # rs) ! i)\<lparr>lost := lost ((r # rs) ! i) + 1\<rparr>
           \<and> (pid + i \<in> set need \<longleftrightarrow> thr \<le> lost ((r # rs) ! i) + 1)
           \<and> pid + i \<notin> fst ` set outs)
      \<and> estimate env (pid + i) \<noteq> EstRaises"
      proof (cases i)
        case 0
        then show ?thesis using Landmarks head notin n r by simp
      next
        case (Suc k)
        then have "k < length rs" using i by simp
        from tail[OF this] show ?thesis unfolding Suc n r other other' by simp
      qed
      qed
    qed
  qed
qed


lemma process_outputs_are_track_outputs:
  assumes "track_rois env w h (frame_threshold p) 0 rois = Inr (outputs, rois1, need)"
      and "process_multiperson_frame env p w h rois = Inr (outs', rois', p')"
  shows "outs' = outputs"
proof (cases "rois = []")
  case True
  with assms show ?thesis by (simp add: process_multiperson_frame_def)
next
  case False
  with assms show ?thesis
    by (auto simp: process_multiperson_frame_def Let_def split: sum.splits prod.splits)
qed

lemma remap_landmarks_frame:
  "w \<noteq> 0 \<Longrightarrow> h \<noteq> 0 \<Longrightarrow> remap_landmarks r w h lms = Some (map (remap_landmark r w h) lms)"
  by (simp add: remap_landmarks_def)

lemma remap_landmark_formula:
  "remap_landmark r w h =
     (\<lambda>(x, y, z, v).
        ((x * real_of_int (rx2 r - rx1 r) + real_of_int (rx1 r)) / real_of_int w,
         (y * real_of_int (ry2 r - ry1 r) + real_of_int (ry1 r)) / real_of_int h, z, v))"
  by (rule ext) (simp add: remap_landmark_def split: prod.splits)

text \<open>
  C5: in the tracking step, taken on a frame whose width and height are not 0 and in which
  every estimator call returns, each ROI with a hit has \<open>lost\<close> reset to 0 and the pair of
  its slot index and its landmarks is emitted, every coordinate remapped by
  \<open>(x * (x2 - x1) + x1) / image_width\<close> and \<open>(y * (y2 - y1) + y1) / image_height\<close>; each ROI
  with a miss has \<open>lost\<close> incremented, emits nothing, and is among the slots needing reseed
  exactly when the incremented count has reached \<open>frame_threshold\<close>, whose default is 10.
  The outputs of \<open>process_multiperson_frame\<close> are those of this step.
\<close>

theorem tracking_step_hit_and_miss:
  assumes "\<forall>i<length rois. estimate env i \<noteq> EstRaises"
      and "image_width \<noteq> 0" and "image_height \<noteq> 0"
  shows "\<exists>outputs rois' need.
      track_rois env image_width image_height (frame_threshold p) 0 rois = Inr (outputs, rois', need)
    \<and> length rois' = length rois
    \<and> (\<forall>outs rs' p'. process_multiperson_frame env p image_width image_height rois = Inr (outs, rs', p')
          \<longrightarrow> outs = outputs)
    \<and> (\<forall>i<length rois.
         (\<forall>lms. estimate env i = Landmarks lms \<longrightarrow>
              rois' ! i = (rois ! i)\<lparr>lost := 0\<rparr>
            \<and> (\<forall>out. (i, out) \<in> set outputs \<longleftrightarrow>
                  out = map (\<lambda>(x, y, z, v).
                          ((x * real_of_int (rx2 (rois ! i) - rx1 (rois ! i)) + real_of_int (rx1 (rois ! i)))
                             / real_of_int image_width,
                           (y * real_of_int (ry2 (rois ! i) - ry1 (rois ! i)) + real_of_int (ry1 (rois ! i)))
                             / real_of_int image_height, z, v)) lms)
            \<and> i \<notin> set need)
       \<and> (estimate env i = NoLandmarks \<longrightarrow>
              rois' ! i = (rois ! i)\<lparr>lost := lost (rois ! i) + 1\<rparr>
            \<and> (i \<in> set need \<longleftrightarrow> frame_threshold p \<le> lost (rois ! i) + 1)
            \<and> i \<notin> fst ` set outputs))
    \<and> frame_threshold (init_processor default_frame_threshold) = 10"
proof -
  from assms(1) have "\<forall>i<length rois. estimate env (0 + i) \<noteq> EstRaises" by simp
  from track_rois_returns[OF this] obtain outputs rois' need where
    t: "track_rois env image_width image_height (frame_threshold p) 0 rois = Inr (outputs, rois', need)"
    by (metis prod_cases3)
  note sl = track_rois_slots[OF t]
  have len: "length rois' = length rois" using sl by blast
  have link: "\<forall>outs rs' p'. process_multiperson_frame env p image_width image_height rois = Inr (outs, rs', p')
          \<longrightarrow> outs = outputs"
    using process_outputs_are_track_outputs[OF t] by blast
  have slots: "\<forall>i<length rois.
         (\<forall>lms. estimate env i = Landmarks lms \<longrightarrow>
              rois' ! i = (rois ! i)\<lparr>lost := 0\<rparr>
            \<and> (\<forall>out. (i, out) \<in> set outputs \<longleftrightarrow>
                  out = map (\<lambda>(x, y, z, v).
                          ((x * real_of_int (rx2 (rois ! i) - rx1 (rois ! i)) + real_of_int (rx1 (rois ! i)))
                             / real_of_int image_width,
                           (y * real_of_int (ry2 (rois ! i) - ry1 (rois ! i)) + real_of_int (ry1 (rois ! i)))
                             / real_of_int image_height, z, v)) lms)
            \<and> i \<notin> set need)
       \<and> (estimate env i = NoLandmarks \<longrightarrow>
              rois' ! i = (rois ! i)\<lparr>lost := lost (rois ! i) + 1\<rparr>
            \<and> (i \<in> set need \<longleftrightarrow> frame_threshold p \<le> lost (rois ! i) + 1)
            \<and> i \<notin> fst ` set outputs)"
  proof (rule allI, rule impI)
    fix i assume i: "i < length rois"
    from sl i have s: "(\<forall>lms. estimate env (0 + i) = Landmarks lms \<longrightarrow>
             rois' ! i = (rois ! i)\<lparr>lost := 0\<rparr>
           \<and> 0 + i \<notin> set need
           \<and> (\<forall>out. (0 + i, out) \<in> set outputs \<longleftrightarrow>
                 remap_landmarks (rois ! i) image_width image_height lms = Some out))
      \<and> (estimate env (0 + i) = NoLandmarks \<longrightarrow>
             rois' ! i = (rois ! i)\<lparr>lost := lost (rois ! i) + 1\<rparr>
           \<and> (0 + i \<in> set need \<longleftrightarrow> frame_threshold p \<le> lost (rois ! i) + 1)
           \<and> 0 + i \<notin> fst ` set outputs)" by blast
    show "(\<forall>lms. estimate env i = Landmarks lms \<longrightarrow>
              rois' ! i = (rois ! i)\<lparr>lost := 0\<rparr>
            \<and> (\<forall>out. (i, out) \<in> set outputs \<longleftrightarrow>
                  out = map (\<lambda>(x, y, z, v).
                          ((x * real_of_int (rx2 (rois ! i) - rx1 (rois ! i)) + real_of_int (rx1 (rois ! i)))
                             / real_of_int image_width,
                           (y * real_of_int (ry2 (rois ! i) - ry1 (rois ! i)) + real_of_int (ry1 (rois ! i)))
                             / real_of_int image_height, z, v)) lms)
            \<and> i \<notin> set need)
       \<and> (estimate env i = NoLandmarks \<longrightarrow>
              rois' ! i = (rois ! i)\<lparr>lost := lost (rois ! i) + 1\<rparr>
            \<and> (i \<in> set need \<longleftrightarrow> frame_threshold p \<le> lost (rois ! i) + 1)
            \<and> i \<notin> fst ` set outputs)"
      using s remap_landmarks_frame[OF assms(2,3)]
      by (auto simp: remap_landmark_formula)
  qed
  have d: "frame_threshold (init_processor default_frame_threshold) = 10"
    by (simp add: init_processor_def default_frame_threshold_def)
  show ?thesis using t len link slots d by blast
qed

theorem tracking_step_hit_and_miss_witness:
  "length example_rois = 2
   \<and> estimate \<lparr>estimate = (\<lambda>i. if i = 0 then Landmarks [(1 / 2, 1 / 2, 0, 1)] else NoLandmarks),
                 detect = Detections [], assignment = (\<lambda>c. []), yolo_loads = True,
          estimate_retry = (\<lambda>i k. NoLandmarks), detect_retry = (\<lambda>k. Detections [])\<rparr> 0 \<noteq> EstRaises
   \<and> estimate \<lparr>estimate = (\<lambda>i. if i = 0 then Landmarks [(1 / 2, 1 / 2, 0, 1)] else NoLandmarks),
                 detect = Detections [], assignment = (\<lambda>c. []), yolo_loads = True,
          estimate_retry = (\<lambda>i k. NoLandmarks), detect_retry = (\<lambda>k. Detections [])\<rparr> 1 \<noteq> EstRaises
   \<and> (640 :: int) \<noteq> 0 \<and> (480 :: int) \<noteq> 0
   \<and> track_rois \<lparr>estimate = (\<lambda>i. if i = 0 then Landmarks [(1 / 2, 1 / 2, 0, 1)] else NoLandmarks),
                   detect = Detections [], assignment = (\<lambda>c. []), yolo_loads = True,
          estimate_retry = (\<lambda>i k. NoLandmarks), detect_retry = (\<lambda>k. Detections [])\<rparr>
        640 480 (frame_threshold example_processor) 0 example_rois =
      Inr ([(0, [(5 / 16, 25 / 48, 0, 1)])],
           [\<lparr>rx1 = 100, ry1 = 100, rx2 = 300, ry2 = 400, lost = 0, pose = 1, overlap_streak = 0\<rparr>,
            \<lparr>rx1 = 400, ry1 = 100, rx2 = 600, ry2 = 400, lost = 10, pose = 2, overlap_streak = 0\<rparr>],
           [1])"
proof -
  let ?env = "\<lparr>estimate = (\<lambda>i. if i = 0 then Landmarks [(1 / 2, 1 / 2, 0, 1)] else NoLandmarks),
                 detect = Detections [], assignment = (\<lambda>c. []), yolo_loads = True,
          estimate_retry = (\<lambda>i k. NoLandmarks), detect_retry = (\<lambda>k. Detections [])\<rparr>"
  have h: "\<forall>i<length example_rois. estimate ?env i \<noteq> EstRaises" by simp
  have w: "(640 :: int) \<noteq> 0" "(480 :: int) \<noteq> 0" by simp_all
  show ?thesis
    using h tracking_step_hit_and_miss[OF h w, of example_processor]
    by (simp add: example_rois_def example_processor_def init_processor_def
          default_frame_threshold_def remap_landmarks_def remap_landmark_def)
qed

lemma track_rois_need_nonempty:
  assumes "track_rois env w h thr 0 rois = Inr (outputs, rois1, need)"
      and "i < length rois" "estimate env i = NoLandmarks" "thr \<le> lost (rois ! i) + 1"
  shows "need \<noteq> []"
proof -
  have all: "\<forall>i<length rois.
        estimate env (0 + i) = NoLandmarks \<longrightarrow>
          (0 + i \<in> set need \<longleftrightarrow> thr \<le> lost (rois ! i) + 1)"
    using track_rois_slots[OF assms(1)] by simp
  have "estimate env (0 + i) = NoLandmarks \<longrightarrow>
          (0 + i \<in> set need \<longleftrightarrow> thr \<le> lost (rois ! i) + 1)"
    using all[rule_format, OF assms(2)] by (rule impI)
  then have "i \<in> set need" using assms(3,4) by simp
  then show ?thesis by (cases need) simp_all
qed

lemma reseed_step_detector_raises:
  "need \<noteq> [] \<Longrightarrow> yolo p \<Longrightarrow> detect env = DetRaises \<Longrightarrow>
   reseed_step env w h need (rois, p) = Inl DetectorError"
  by (simp add: reseed_step_def yolo_predict_def)

lemma process_track_raises:
  "track_rois env w h (frame_threshold p) 0 rois = Inl e \<Longrightarrow>
   process_multiperson_frame env p w h rois = Inl e"
  by (cases rois) (simp_all add: process_multiperson_frame_def)

lemma process_reseed_raises:
  "rois \<noteq> [] \<Longrightarrow> track_rois env w h (frame_threshold p) 0 rois = Inr (outputs, rois1, need) \<Longrightarrow>
   reseed_step env w h need (rois1, p) = Inl e \<Longrightarrow>
   process_multiperson_frame env p w h rois = Inl e"
  by (simp add: process_multiperson_frame_def)

lemma estimator_raise_propagates:
  assumes "\<exists>i<length rois. estimate env i = EstRaises"
  shows "process_multiperson_frame env p w h rois = Inl EstimatorError"
proof -
  from assms have "\<exists>i<length rois. estimate env (0 + i) = EstRaises" by simp
  then have "track_rois env w h (frame_threshold p) 0 rois = Inl EstimatorError"
    by (rule track_rois_raises)
  then show ?thesis by (rule process_track_raises)
qed

lemma detector_raise_propagates:
  assumes a: "\<forall>i<length rois. estimate env i \<noteq> EstRaises"
      and b: "\<exists>i<length rois. estimate env i = NoLandmarks \<and> frame_threshold p \<le> lost (rois ! i) + 1"
      and c: "yolo p" "detect env = DetRaises"
  shows "process_multiperson_frame env p w h rois = Inl DetectorError"
proof -
  from a have "\<forall>i<length rois. estimate env (0 + i) \<noteq> EstRaises" by simp
  from track_rois_returns[OF this] obtain outputs rois1 need where
    t: "track_rois env w h (frame_threshold p) 0 rois = Inr (outputs, rois1, need)"
    by (metis prod_cases3)
  from b obtain i where i: "i < length rois" "estimate env i = NoLandmarks"
    "frame_threshold p \<le> lost (rois ! i) + 1" by blast
  have ne: "need \<noteq> []" by (rule track_rois_need_nonempty[OF t i])
  have r: "reseed_step env w h need (rois1, p) = Inl DetectorError"
    using ne c by (simp add: reseed_step_detector_raises)
  have "rois \<noteq> []" using i by auto
  then show ?thesis using t r by (rule process_reseed_raises)
qed

text \<open>
  C2, as stated: an exception out of an estimator call is counted as a miss, one out of the
  detector call as no detections, and neither leaves the per-frame step. Neither call is
  inside a \<open>try\<close> (lines 89 and 108), so on the example ROIs the step ends with the
  exception in both cases.
\<close>

theorem failure_not_absorbed:
  "process_multiperson_frame
      \<lparr>estimate = (\<lambda>i. EstRaises), detect = Detections [], assignment = (\<lambda>c. []), yolo_loads = True,
          estimate_retry = (\<lambda>i k. NoLandmarks), detect_retry = (\<lambda>k. Detections [])\<rparr>
      example_processor 640 480 example_rois = Inl EstimatorError
   \<and> process_multiperson_frame
      \<lparr>estimate = (\<lambda>i. NoLandmarks), detect = DetRaises, assignment = (\<lambda>c. []), yolo_loads = True,
          estimate_retry = (\<lambda>i k. NoLandmarks), detect_retry = (\<lambda>k. Detections [])\<rparr>
      example_processor 640 480 example_rois = Inl DetectorError"
  by (simp add: process_multiperson_frame_def example_rois_def example_processor_def
        init_processor_def default_frame_threshold_def reseed_step_def yolo_predict_def)

text \<open>
  C2, amended: if the estimator call of any ROI raises, the per-frame step raises; and if
  every estimator call returns, some slot reaches the threshold (so that the reseed step
  runs), and the detector call raises, the per-frame step raises. In both cases the step
  returns neither outputs nor ROIs, and the failed call is not repeated: the step raises
  whatever a repetition of the estimator call or of the detector call would have answered,
  also when the repetition would have succeeded. (A step that repeated a failed call would
  read \<open>estimate_retry\<close> or \<open>detect_retry\<close> and return a result for an answer that
  succeeds.)
\<close>

theorem collaborator_failure_propagates:
  "((\<exists>i<length rois. estimate env i = EstRaises) \<longrightarrow>
      process_multiperson_frame env p w h rois = Inl EstimatorError
    \<and> (\<forall>again det_again.
          process_multiperson_frame (env\<lparr>estimate_retry := again, detect_retry := det_again\<rparr>)
            p w h rois = Inl EstimatorError))
   \<and> ((\<forall>i<length rois. estimate env i \<noteq> EstRaises)
       \<and> (\<exists>i<length rois. estimate env i = NoLandmarks \<and> frame_threshold p \<le> lost (rois ! i) + 1)
       \<and> yolo p \<and> detect env = DetRaises \<longrightarrow>
      process_multiperson_frame env p w h rois = Inl DetectorError
    \<and> (\<forall>again det_again.
          process_multiperson_frame (env\<lparr>estimate_retry := again, detect_retry := det_again\<rparr>)
            p w h rois = Inl DetectorError))"
proof (intro conjI impI allI)
  assume a: "\<exists>i<length rois. estimate env i = EstRaises"
  show "process_multiperson_frame env p w h rois = Inl EstimatorError"
    using a by (rule estimator_raise_propagates)
  fix again det_again
  show "process_multiperson_frame (env\<lparr>estimate_retry := again, detect_retry := det_again\<rparr>)
            p w h rois = Inl EstimatorError"
    by (rule estimator_raise_propagates) (use a in simp)
next
  assume a: "(\<forall>i<length rois. estimate env i \<noteq> EstRaises)
       \<and> (\<exists>i<length rois. estimate env i = NoLandmarks \<and> frame_threshold p \<le> lost (rois ! i) + 1)
       \<and> yolo p \<and> detect env = DetRaises"
  show "process_multiperson_frame env p w h rois = Inl DetectorError"
    using a by (intro detector_raise_propagates) simp_all
  fix again det_again
  show "process_multiperson_frame (env\<lparr>estimate_retry := again, detect_retry := det_again\<rparr>)
            p w h rois = Inl DetectorError"
    using a by (intro detector_raise_propagates) simp_all
qed

theorem collaborator_failure_propagates_witness:
  "(\<exists>i<length example_rois. estimate \<lparr>estimate = (\<lambda>i. if i = 1 then EstRaises else NoLandmarks),
        detect = Detections [], assignment = (\<lambda>c. []), yolo_loads = True,
          estimate_retry = (\<lambda>i k. NoLandmarks), detect_retry = (\<lambda>k. Detections [])\<rparr> i = EstRaises)
   \<and> process_multiperson_frame
        \<lparr>estimate = (\<lambda>i. if i = 1 then EstRaises else NoLandmarks),
          detect = Detections [], assignment = (\<lambda>c. []), yolo_loads = True,
          estimate_retry = (\<lambda>i k. NoLandmarks), detect_retry = (\<lambda>k. Detections [])\<rparr>
        example_processor 640 480 example_rois = Inl EstimatorError
   \<and> process_multiperson_frame
        \<lparr>estimate = (\<lambda>i. if i = 1 then EstRaises else NoLandmarks),
          detect = Detections [], assignment = (\<lambda>c. []), yolo_loads = True,
          estimate_retry = (\<lambda>i k. Landmarks []), detect_retry = (\<lambda>k. Detections [])\<rparr>
        example_processor 640 480 example_rois = Inl EstimatorError
   \<and> process_multiperson_frame
        \<lparr>estimate = (\<lambda>i. NoLandmarks), detect = DetRaises, assignment = (\<lambda>c. []), yolo_loads = True,
          estimate_retry = (\<lambda>i k. NoLandmarks),
          detect_retry = (\<lambda>k. Detections [(210, 10, 290, 90, 0.9, 0)])\<rparr>
        example_processor 640 480 example_rois = Inl DetectorError
   \<and> length example_rois = 2
   \<and> estimate \<lparr>estimate = (\<lambda>i. NoLandmarks),
        detect = DetRaises, assignment = (\<lambda>c. []), yolo_loads = True,
          estimate_retry = (\<lambda>i k. NoLandmarks), detect_retry = (\<lambda>k. Detections [])\<rparr> 0 \<noteq> EstRaises
   \<and> estimate \<lparr>estimate = (\<lambda>i. NoLandmarks),
        detect = DetRaises, assignment = (\<lambda>c. []), yolo_loads = True,
          estimate_retry = (\<lambda>i k. NoLandmarks), detect_retry = (\<lambda>k. Detections [])\<rparr> 1 \<noteq> EstRaises
   \<and> (\<exists>i<length example_rois. estimate \<lparr>estimate = (\<lambda>i. NoLandmarks),
        detect = DetRaises, assignment = (\<lambda>c. []), yolo_loads = True,
          estimate_retry = (\<lambda>i k. NoLandmarks), detect_retry = (\<lambda>k. Detections [])\<rparr> i = NoLandmarks
        \<and> frame_threshold example_processor \<le> lost (example_rois ! i) + 1)
   \<and> yolo example_processor
   \<and> process_multiperson_frame
        \<lparr>estimate = (\<lambda>i. NoLandmarks), detect = DetRaises, assignment = (\<lambda>c. []), yolo_loads = True,
          estimate_retry = (\<lambda>i k. NoLandmarks), detect_retry = (\<lambda>k. Detections [])\<rparr>
        example_processor 640 480 example_rois = Inl DetectorError"
proof -
  let ?e1 = "\<lparr>estimate = (\<lambda>i. if i = 1 then EstRaises else NoLandmarks),
          detect = Detections [], assignment = (\<lambda>c. []), yolo_loads = True,
          estimate_retry = (\<lambda>i k. NoLandmarks), detect_retry = (\<lambda>k. Detections [])\<rparr>"
  let ?e2 = "\<lparr>estimate = (\<lambda>i. NoLandmarks), detect = DetRaises, assignment = (\<lambda>c. []),
          yolo_loads = True,
          estimate_retry = (\<lambda>i k. NoLandmarks), detect_retry = (\<lambda>k. Detections [])\<rparr>"
  have a: "\<exists>i<length example_rois. estimate ?e1 i = EstRaises"
    by (rule exI[of _ 1]) (simp add: example_rois_def)
  have b: "\<forall>i<length example_rois. estimate ?e2 i \<noteq> EstRaises" by simp
  have c: "\<exists>i<length example_rois. estimate ?e2 i = NoLandmarks
        \<and> frame_threshold example_processor \<le> lost (example_rois ! i) + 1"
    by (rule exI[of _ 1])
       (simp add: example_rois_def example_processor_def init_processor_def default_frame_threshold_def)
  have d: "yolo example_processor" "detect ?e2 = DetRaises"
    by (simp_all add: example_processor_def)
  have l: "length example_rois = 2" by (simp add: example_rois_def)
  have e: "estimate ?e2 0 \<noteq> EstRaises" "estimate ?e2 1 \<noteq> EstRaises" by simp_all
  note t1 = collaborator_failure_propagates[of example_rois ?e1 example_processor 640 480,
      THEN conjunct1, THEN mp, OF a]
  note t2 = collaborator_failure_propagates[of example_rois ?e2 example_processor 640 480,
      THEN conjunct2, THEN mp, OF conjI[OF b conjI[OF c conjI[OF d]]]]
  have r1: "process_multiperson_frame
        \<lparr>estimate = (\<lambda>i. if i = 1 then EstRaises else NoLandmarks),
          detect = Detections [], assignment = (\<lambda>c. []), yolo_loads = True,
          estimate_retry = (\<lambda>i k. Landmarks []), detect_retry = (\<lambda>k. Detections [])\<rparr>
        example_processor 640 480 example_rois = Inl EstimatorError"
    using t1[THEN conjunct2, rule_format,
        where again = "\<lambda>i k. Landmarks []" and det_again = "\<lambda>k. Detections []"] by simp
  have r2: "process_multiperson_frame
        \<lparr>estimate = (\<lambda>i. NoLandmarks), detect = DetRaises, assignment = (\<lambda>c. []), yolo_loads = True,
          estimate_retry = (\<lambda>i k. NoLandmarks),
          detect_retry = (\<lambda>k. Detections [(210, 10, 290, 90, 0.9, 0)])\<rparr>
        example_processor 640 480 example_rois = Inl DetectorError"
    using t2[THEN conjunct2, rule_format, where again = "\<lambda>i k. NoLandmarks"
        and det_again = "\<lambda>k. Detections [(210, 10, 290, 90, 0.9, 0)]"] by simp
  show ?thesis
    by (intro conjI a c d(1) l e t1[THEN conjunct1] t2[THEN conjunct1] r1 r2)
qed


section \<open>Seeding and the number of ROIs\<close>

lemma seed_boxes_append:
  "seed_boxes w h m bs (rois, p) =
     (rois @ map (seeded_roi w h m) (enumerate (poses_created p) bs),
      p\<lparr>poses_created := poses_created p + length bs\<rparr>)"
proof (induction bs arbitrary: rois p)
  case Nil
  then show ?case by simp
next
  case (Cons b bs)
  obtain x1 y1 x2 y2 where b: "b = (x1, y1, x2, y2)" by (cases b) auto
  obtain x1e y1e x2e y2e where e: "expand_and_clip_bbox x1 y1 x2 y2 w h m = (x1e, y1e, x2e, y2e)"
    by (cases "expand_and_clip_bbox x1 y1 x2 y2 w h m") auto
  show ?case
    unfolding b
    by (simp add: e Let_def Cons.IH seeded_roi_def)
qed

lemma reseed_pair_length: "length (fst (reseed_pair w h hbs need pbs cost rc s)) = length (fst s)"
  by (cases rc; cases s) (simp add: reseed_pair_def Let_def split: prod.splits)

lemma fold_reseed_pair_length:
  "length (fst (fold (reseed_pair w h hbs need pbs cost) pairs s)) = length (fst s)"
  by (induction pairs arbitrary: s) (simp_all add: reseed_pair_length)

lemma reseed_step_length:
  "reseed_step env w h need (rois, p) = Inr (rois', p') \<Longrightarrow> length rois' = length rois"
  using fold_reseed_pair_length[of w h "healthy_boxes rois" need _ _ _ "(rois, _)"]
  by (auto simp: reseed_step_def Let_def split: if_splits sum.splits prod.splits)
     (metis fst_conv)+

lemma reseed_step_returns:
  "need = [] \<or> (yolo p \<and> detect env \<noteq> DetRaises) \<Longrightarrow>
   \<exists>res. reseed_step env w h need (rois, p) = Inr res"
  by (cases "detect env") (auto simp: reseed_step_def yolo_predict_def Let_def)

lemma dedup_pair_length: "length (fst (dedup_pair i j s)) = length (fst s)"
  by (cases s) (simp add: dedup_pair_def Let_def)

lemma dedup_inner_length: "length (fst (dedup_inner i js s)) = length (fst s)"
proof (induction js arbitrary: s)
  case Nil
  then show ?case by simp
next
  case (Cons j js)
  obtain rs rem p where s: "s = (rs, rem, p)" by (cases s) auto
  show ?case unfolding s using Cons.IH dedup_pair_length[of i j "(rs, rem, p)"] by simp
qed

lemma dedup_outer_length: "length (fst (dedup_outer n is s)) = length (fst s)"
proof (induction "is" arbitrary: s)
  case Nil
  then show ?case by simp
next
  case (Cons i "is")
  obtain rs rem p where s: "s = (rs, rem, p)" by (cases s) auto
  show ?case unfolding s using Cons.IH dedup_inner_length[of i _ "(rs, rem, p)"] by simp
qed

lemma dedup_length: "length (fst (dedup rois p)) \<le> length rois"
proof -
  obtain rs rem q where o: "dedup_outer (length rois) [0..<length rois] (rois, {}, p) = (rs, rem, q)"
    by (metis prod_cases3)
  have len: "length rs = length rois" using dedup_outer_length[of "length rois" "[0..<length rois]" "(rois, {}, p)"] o by simp
  have "length (map snd (filter (\<lambda>(idx, r). idx \<notin> rem) (enumerate 0 rs))) \<le> length rs"
    using length_filter_le[of _ "enumerate 0 rs"] by simp
  then show ?thesis using len by (simp add: dedup_def Let_def o)
qed

lemma track_rois_length:
  "track_rois env w h thr pid rs = Inr (outs, rs', need) \<Longrightarrow> length rs' = length rs"
  using track_rois_slots by blast

lemma process_length:
  assumes "process_multiperson_frame env p w h rois = Inr (outs, rois', p')"
  shows "length rois' \<le> length rois"
proof (cases "rois = []")
  case True
  with assms show ?thesis by (simp add: process_multiperson_frame_def)
next
  case False
  from assms False obtain outs1 rois1 need rois2 p2 where
    t: "track_rois env w h (frame_threshold p) 0 rois = Inr (outs1, rois1, need)"
    and r: "reseed_step env w h need (rois1, p) = Inr (rois2, p2)"
    and d: "rois' = fst (dedup rois2 (p2\<lparr>frame_counter := frame_counter p2 + 1\<rparr>))"
    by (auto simp: process_multiperson_frame_def Let_def split: sum.splits prod.splits)
  have "length rois' \<le> length rois2" unfolding d by (rule dedup_length)
  also have "\<dots> = length rois1" using r by (rule reseed_step_length)
  also have "\<dots> = length rois" using t by (rule track_rois_length)
  finally show ?thesis .
qed

lemma process_returns:
  assumes "\<forall>i<length rois. estimate env i \<noteq> EstRaises" "yolo p" "detect env \<noteq> DetRaises"
  shows "\<exists>res. process_multiperson_frame env p w h rois = Inr res"
proof (cases "rois = []")
  case True
  then show ?thesis by (simp add: process_multiperson_frame_def)
next
  case False
  from assms(1) have "\<forall>i<length rois. estimate env (0 + i) \<noteq> EstRaises" by simp
  from track_rois_returns[OF this] obtain outs1 rois1 need where
    t: "track_rois env w h (frame_threshold p) 0 rois = Inr (outs1, rois1, need)"
    by (metis prod_cases3)
  from reseed_step_returns[of need p env w h rois1] assms(2,3) obtain rois2 p2 where
    r: "reseed_step env w h need (rois1, p) = Inr (rois2, p2)" by fastforce
  show ?thesis using False t r
    by (simp add: process_multiperson_frame_def Let_def split: prod.splits)
qed

lemma seed_nonempty:
  "rois \<noteq> [] \<Longrightarrow> seed_rois_if_needed env p w h rois m = Inr (rois', p') \<Longrightarrow>
   rois' = rois \<and> predict_calls p' = predict_calls p"
  by (auto simp: seed_rois_if_needed_def ensure_yolo_def split: sum.splits if_splits)

lemma person_boxes_of_map_filter:
  "person_boxes_of boxes =
     map (\<lambda>(x1, y1, x2, y2, conf, cls). (py_int x1, py_int y1, py_int x2, py_int y2))
         (filter (\<lambda>(x1, y1, x2, y2, conf, cls). py_int cls = 0) boxes)"
  by (induction boxes) auto

lemma seeded_roi_fields:
  "roi_box (seeded_roi w h m (n, b)) =
     (case b of (x1, y1, x2, y2) \<Rightarrow> expand_and_clip_bbox x1 y1 x2 y2 w h m)
   \<and> lost (seeded_roi w h m (n, b)) = 0
   \<and> overlap_streak (seeded_roi w h m (n, b)) = 0
   \<and> pose (seeded_roi w h m (n, b)) = n"
  by (cases b) (simp add: seeded_roi_def roi_box_def split: prod.splits)

lemma seed_empty:
  assumes "yolo p \<or> yolo_loads env" and "detect env = Detections boxes"
  shows "seed_rois_if_needed env p w h [] m =
           Inr (map (seeded_roi w h m) (enumerate (poses_created p) (person_boxes_of boxes)),
                p\<lparr>yolo := True, predict_calls := predict_calls p + 1,
                  poses_created := poses_created p + length (person_boxes_of boxes)\<rparr>)"
  using assms
  by (cases "yolo p") (auto simp: seed_rois_if_needed_def ensure_yolo_def yolo_predict_def seed_boxes_append)

text \<open>
  C10: called with an empty ROI list, with the detector loaded or loadable and answering,
  the seeding step runs the detector once and returns one new ROI for every detector row
  of class 0 (person), in order: its bounds are the truncated row expanded by margin ratio
  0.25 and clipped to the frame, \<open>lost\<close> and \<open>overlap_streak\<close> are 0, and its estimator is
  an instance constructed by this call, numbered after all instances that existed before.
\<close>

theorem seeding_of_empty_list:
  assumes "yolo p \<or> yolo_loads env" and "detect env = Detections boxes"
  shows "\<exists>rois' p'.
      seed_rois_if_needed env p image_width image_height [] 0.25 = Inr (rois', p')
    \<and> predict_calls p' = predict_calls p + 1
    \<and> person_boxes_of boxes =
         map (\<lambda>(x1, y1, x2, y2, conf, cls). (py_int x1, py_int y1, py_int x2, py_int y2))
             (filter (\<lambda>(x1, y1, x2, y2, conf, cls). py_int cls = 0) boxes)
    \<and> length rois' = length (person_boxes_of boxes)
    \<and> poses_created p' = poses_created p + length (person_boxes_of boxes)
    \<and> (\<forall>k<length (person_boxes_of boxes).
           roi_box (rois' ! k) =
             (case person_boxes_of boxes ! k of (x1, y1, x2, y2) \<Rightarrow>
                expand_and_clip_bbox x1 y1 x2 y2 image_width image_height 0.25)
         \<and> lost (rois' ! k) = 0
         \<and> overlap_streak (rois' ! k) = 0
         \<and> pose (rois' ! k) = poses_created p + k)"
proof -
  define rois' where
    "rois' = map (seeded_roi image_width image_height 0.25)
               (enumerate (poses_created p) (person_boxes_of boxes))"
  define p' where
    "p' = p\<lparr>yolo := True, predict_calls := predict_calls p + 1,
            poses_created := poses_created p + length (person_boxes_of boxes)\<rparr>"
  have s: "seed_rois_if_needed env p image_width image_height [] 0.25 = Inr (rois', p')"
    unfolding rois'_def p'_def by (rule seed_empty[OF assms])
  have c: "predict_calls p' = predict_calls p + 1" by (simp add: p'_def)
  have l: "length rois' = length (person_boxes_of boxes)" by (simp add: rois'_def)
  have n: "poses_created p' = poses_created p + length (person_boxes_of boxes)"
    by (simp add: p'_def)
  have k: "\<forall>k<length (person_boxes_of boxes).
           roi_box (rois' ! k) =
             (case person_boxes_of boxes ! k of (x1, y1, x2, y2) \<Rightarrow>
                expand_and_clip_bbox x1 y1 x2 y2 image_width image_height 0.25)
         \<and> lost (rois' ! k) = 0
         \<and> overlap_streak (rois' ! k) = 0
         \<and> pose (rois' ! k) = poses_created p + k"
    by (simp add: rois'_def nth_enumerate_eq seeded_roi_fields)
  show ?thesis using s c l n k person_boxes_of_map_filter[of boxes] by blast
qed

theorem seeding_of_empty_list_witness:
  "(yolo (init_processor 10) \<or>
      yolo_loads \<lparr>estimate = (\<lambda>i. NoLandmarks),
                  detect = Detections [(10.7, 20.2, 110.9, 220.5, 0.9, 0), (0, 0, 50, 50, 0.8, 2)],
                  assignment = (\<lambda>c. []), yolo_loads = True,
          estimate_retry = (\<lambda>i k. NoLandmarks), detect_retry = (\<lambda>k. Detections [])\<rparr>)
   \<and> seed_rois_if_needed
        \<lparr>estimate = (\<lambda>i. NoLandmarks),
          detect = Detections [(10.7, 20.2, 110.9, 220.5, 0.9, 0), (0, 0, 50, 50, 0.8, 2)],
          assignment = (\<lambda>c. []), yolo_loads = True,
          estimate_retry = (\<lambda>i k. NoLandmarks), detect_retry = (\<lambda>k. Detections [])\<rparr>
        (init_processor 10) 640 480 [] 0.25 =
      Inr ([\<lparr>rx1 = 0, ry1 = 0, rx2 = 135, ry2 = 270, lost = 0, pose = 1, overlap_streak = 0\<rparr>],
           \<lparr>frame_threshold = 10, smooth_alpha = 0.5, yolo = True, frame_counter = 0,
            poses_created = 2, poses_closed = [], predict_calls = 1\<rparr>)"
proof -
  let ?env = "\<lparr>estimate = (\<lambda>i. NoLandmarks),
          detect = Detections [(10.7, 20.2, 110.9, 220.5, 0.9, 0), (0, 0, 50, 50, 0.8, 2)],
          assignment = (\<lambda>c. []), yolo_loads = True,
          estimate_retry = (\<lambda>i k. NoLandmarks), detect_retry = (\<lambda>k. Detections [])\<rparr>"
  have h: "yolo (init_processor 10) \<or> yolo_loads ?env" by simp
  have d: "detect ?env = Detections [(10.7, 20.2, 110.9, 220.5, 0.9, 0), (0, 0, 50, 50, 0.8, 2)]"
    by simp
  have e: "expand_and_clip_bbox 10 20 110 220 640 480 (1 / 4) = (0, 0, 135, 270)"
    by (simp add: expand_and_clip_bbox_def Let_def py_int_def)
  have pb: "person_boxes_of [(10.7, 20.2, 110.9, 220.5, 0.9, 0), (0, 0, 50, 50, 0.8, 2)]
            = [(10, 20, 110, 220)]"
    by (simp add: py_int_def)
  have ev: "seed_rois_if_needed ?env (init_processor 10) 640 480 [] 0.25 =
      Inr ([\<lparr>rx1 = 0, ry1 = 0, rx2 = 135, ry2 = 270, lost = 0, pose = 1, overlap_streak = 0\<rparr>],
           \<lparr>frame_threshold = 10, smooth_alpha = 0.5, yolo = True, frame_counter = 0,
            poses_created = 2, poses_closed = [], predict_calls = 1\<rparr>)"
  proof -
    have "seed_rois_if_needed ?env (init_processor 10) 640 480 [] 0.25 =
            Inr (map (seeded_roi 640 480 0.25)
                   (enumerate (poses_created (init_processor 10))
                      (person_boxes_of [(10.7, 20.2, 110.9, 220.5, 0.9, 0), (0, 0, 50, 50, 0.8, 2)])),
                 (init_processor 10)\<lparr>yolo := True,
                   predict_calls := predict_calls (init_processor 10) + 1,
                   poses_created := poses_created (init_processor 10) +
                     length (person_boxes_of
                       [(10.7, 20.2, 110.9, 220.5, 0.9, 0), (0, 0, 50, 50, 0.8, 2)])\<rparr>)"
      by (rule seed_empty[OF h d])
    then show ?thesis
      by (simp only: pb) (simp add: seeded_roi_def e init_processor_def)
  qed
  from seeding_of_empty_list[OF h d, of 640 480] obtain rois' p' where
    "seed_rois_if_needed ?env (init_processor 10) 640 480 [] 0.25 = Inr (rois', p')"
    "predict_calls p' = predict_calls (init_processor 10) + 1"
    by blast
  with ev h show ?thesis by simp
qed

text \<open>
  C8: no per-frame operation makes the ROI list longer. On a non-empty list seeding returns
  the list as it is and does not run the detector; the reseed step returns a list of the
  same length; deduplication returns a list that is not longer; so whatever the detector
  reports, \<open>process_multiperson_frame\<close> returns a list no longer than the one it was
  given, and it does return one whenever no collaborator raises.
\<close>

theorem roi_count_never_grows:
  "(rois \<noteq> [] \<and> seed_rois_if_needed env p w h rois m = Inr (rois1, p1) \<longrightarrow>
       rois1 = rois \<and> predict_calls p1 = predict_calls p)
   \<and> (rois \<noteq> [] \<and> (yolo p \<or> yolo_loads env) \<longrightarrow>
       (\<exists>q. seed_rois_if_needed env p w h rois m = Inr (rois, q)))
   \<and> (reseed_step env w h need (rois, p) = Inr (rois2, p2) \<longrightarrow> length rois2 = length rois)
   \<and> length (fst (dedup rois p)) \<le> length rois
   \<and> (process_multiperson_frame env p w h rois = Inr (outs, rois3, p3) \<longrightarrow>
       length rois3 \<le> length rois)
   \<and> ((\<forall>i<length rois. estimate env i \<noteq> EstRaises) \<and> yolo p \<and> detect env \<noteq> DetRaises \<longrightarrow>
       (\<exists>outs' rois' p'. process_multiperson_frame env p w h rois = Inr (outs', rois', p')
          \<and> length rois' \<le> length rois))"
proof (intro conjI impI)
  assume "rois \<noteq> [] \<and> seed_rois_if_needed env p w h rois m = Inr (rois1, p1)"
  then show "rois1 = rois" "predict_calls p1 = predict_calls p"
    using seed_nonempty by blast+
next
  assume "rois \<noteq> [] \<and> (yolo p \<or> yolo_loads env)"
  then show "\<exists>q. seed_rois_if_needed env p w h rois m = Inr (rois, q)"
    by (cases "yolo p") (auto simp: seed_rois_if_needed_def ensure_yolo_def)
next
  assume "reseed_step env w h need (rois, p) = Inr (rois2, p2)"
  then show "length rois2 = length rois" by (rule reseed_step_length)
next
  show "length (fst (dedup rois p)) \<le> length rois" by (rule dedup_length)
next
  assume "process_multiperson_frame env p w h rois = Inr (outs, rois3, p3)"
  then show "length rois3 \<le> length rois" by (rule process_length)
next
  assume a: "(\<forall>i<length rois. estimate env i \<noteq> EstRaises) \<and> yolo p \<and> detect env \<noteq> DetRaises"
  then obtain res where r: "process_multiperson_frame env p w h rois = Inr res"
    using process_returns[of rois env p w h] by blast
  obtain outs' rois' p' where res: "res = (outs', rois', p')" by (cases res) auto
  have "length rois' \<le> length rois" using r[unfolded res] by (rule process_length)
  then show "\<exists>outs' rois' p'. process_multiperson_frame env p w h rois = Inr (outs', rois', p')
          \<and> length rois' \<le> length rois"
    using r res by blast
qed


theorem roi_count_never_grows_witness:
  "example_rois \<noteq> [] \<and> yolo example_processor \<and> length example_rois = 2
   \<and> estimate \<lparr>estimate = (\<lambda>i. NoLandmarks), detect = Detections [(10, 10, 90, 300, 0.9, 0)],
                 assignment = (\<lambda>c. [(0, 0)]), yolo_loads = True,
          estimate_retry = (\<lambda>i k. NoLandmarks), detect_retry = (\<lambda>k. Detections [])\<rparr> 0 \<noteq> EstRaises
   \<and> estimate \<lparr>estimate = (\<lambda>i. NoLandmarks), detect = Detections [(10, 10, 90, 300, 0.9, 0)],
                 assignment = (\<lambda>c. [(0, 0)]), yolo_loads = True,
          estimate_retry = (\<lambda>i k. NoLandmarks), detect_retry = (\<lambda>k. Detections [])\<rparr> 1 \<noteq> EstRaises
   \<and> detect \<lparr>estimate = (\<lambda>i. NoLandmarks), detect = Detections [(10, 10, 90, 300, 0.9, 0)],
                 assignment = (\<lambda>c. [(0, 0)]), yolo_loads = True,
          estimate_retry = (\<lambda>i k. NoLandmarks), detect_retry = (\<lambda>k. Detections [])\<rparr> \<noteq> DetRaises
   \<and> (\<exists>q. seed_rois_if_needed
              \<lparr>estimate = (\<lambda>i. NoLandmarks), detect = Detections [(10, 10, 90, 300, 0.9, 0)],
                assignment = (\<lambda>c. [(0, 0)]), yolo_loads = True,
          estimate_retry = (\<lambda>i k. NoLandmarks), detect_retry = (\<lambda>k. Detections [])\<rparr>
              example_processor 640 480 example_rois 0.25 = Inr (example_rois, q))
   \<and> (\<exists>outs' rois' p'.
          process_multiperson_frame
              \<lparr>estimate = (\<lambda>i. NoLandmarks), detect = Detections [(10, 10, 90, 300, 0.9, 0)],
                assignment = (\<lambda>c. [(0, 0)]), yolo_loads = True,
          estimate_retry = (\<lambda>i k. NoLandmarks), detect_retry = (\<lambda>k. Detections [])\<rparr>
              example_processor 640 480 example_rois = Inr (outs', rois', p')
        \<and> length rois' \<le> 2)"
proof -
  let ?env = "\<lparr>estimate = (\<lambda>i. NoLandmarks), detect = Detections [(10, 10, 90, 300, 0.9, 0)],
                assignment = (\<lambda>c. [(0, 0)]), yolo_loads = True,
          estimate_retry = (\<lambda>i k. NoLandmarks), detect_retry = (\<lambda>k. Detections [])\<rparr>"
  have ne: "example_rois \<noteq> []" and l: "length example_rois = 2"
    by (simp_all add: example_rois_def)
  have y: "yolo example_processor" by (simp add: example_processor_def)
  have e: "\<forall>i<length example_rois. estimate ?env i \<noteq> EstRaises" by simp
  have d: "detect ?env \<noteq> DetRaises" by simp
  note t = roi_count_never_grows[of example_rois ?env example_processor 640 480 "0.25"]
  have s: "\<exists>q. seed_rois_if_needed ?env example_processor 640 480 example_rois 0.25
                 = Inr (example_rois, q)"
    using t ne y by blast
  have p: "\<exists>outs' rois' p'.
          process_multiperson_frame ?env example_processor 640 480 example_rois
            = Inr (outs', rois', p') \<and> length rois' \<le> 2"
    using t e y d l by (metis (no_types, lifting))
  show ?thesis using ne y l d s p by simp
qed


section \<open>The cost matrix and its gate\<close>

lemma frame_diag_ge_one:
  assumes "w \<noteq> 0 \<or> h \<noteq> 0"
  shows "1 \<le> frame_diag w h"
proof -
  have ww: "0 \<le> w * w" and hh: "0 \<le> h * h" by simp_all
  have "w * w \<noteq> 0 \<or> h * h \<noteq> 0" using assms by simp
  then have "1 \<le> w * w + h * h" using ww hh by linarith
  then have "1 \<le> real_of_int (w * w + h * h)" by linarith
  then show ?thesis unfolding frame_diag_def by (simp only: real_sqrt_ge_one)
qed

lemma cost_entry_formula:
  assumes "w \<noteq> 0 \<or> h \<noteq> 0"
  shows "cost_entry w h rr (x1, y1, x2, y2) =
           sqrt ((real_of_int (x1 + x2) / 2 - real_of_int (rx1 rr + rx2 rr) / 2)\<^sup>2
               + (real_of_int (y1 + y2) / 2 - real_of_int (ry1 rr + ry2 rr) / 2)\<^sup>2)
             / sqrt (real_of_int (w * w + h * h))
           + 0.5 * (1 - iou (roi_box rr) (x1, y1, x2, y2))"
proof -
  have "1 \<le> frame_diag w h" using assms by (rule frame_diag_ge_one)
  then have m: "max (1 / 1000000) (frame_diag w h) = frame_diag w h" by simp
  show ?thesis
    by (simp add: cost_entry_def roi_center_def Let_def m lambda_iou_def roi_box_def power2_eq_square)
       (simp add: frame_diag_def)
qed

lemma cost_matrix_entry:
  "r_i < length need \<Longrightarrow> c_j < length pbs \<Longrightarrow>
   cost_matrix w h rois need pbs ! r_i ! c_j = cost_entry w h (rois ! (need ! r_i)) (pbs ! c_j)"
  by (simp add: cost_matrix_def)

lemma reseed_pair_gate:
  "max_dist w h < cost ! r_i ! c_j \<Longrightarrow> reseed_pair w h hbs need pbs cost (r_i, c_j) s = s"
  by (cases s) (simp add: reseed_pair_def)

lemma center_distance_le_diag:
  fixes cx cy dcx dcy :: real
  assumes "0 \<le> cx" "cx \<le> w" "0 \<le> dcx" "dcx \<le> w" "0 \<le> cy" "cy \<le> h" "0 \<le> dcy" "dcy \<le> h"
  shows "sqrt ((dcx - cx) * (dcx - cx) + (dcy - cy) * (dcy - cy)) \<le> sqrt (w * w + h * h)"
proof -
  have ax: "\<bar>dcx - cx\<bar> \<le> w" and ay: "\<bar>dcy - cy\<bar> \<le> h" using assms by linarith+
  have w0: "0 \<le> w" and h0: "0 \<le> h" using assms by linarith+
  have "\<bar>dcx - cx\<bar> * \<bar>dcx - cx\<bar> \<le> w * w"
    by (rule mult_mono[OF ax ax w0]) simp
  then have x: "(dcx - cx) * (dcx - cx) \<le> w * w" by simp
  have "\<bar>dcy - cy\<bar> * \<bar>dcy - cy\<bar> \<le> h * h"
    by (rule mult_mono[OF ay ay h0]) simp
  then have y: "(dcy - cy) * (dcy - cy) \<le> h * h" by simp
  have "(dcx - cx) * (dcx - cx) + (dcy - cy) * (dcy - cy) \<le> w * w + h * h"
    using x y by linarith
  then show ?thesis by (simp only: real_sqrt_le_iff)
qed

lemma cost_entry_le:
  assumes d19: "19 \<le> frame_diag w h"
      and r: "box_in_frame w h (roi_box rr)" and d: "box_in_frame w h d"
  shows "cost_entry w h rr d \<le> 1.5"
proof -
  obtain x1 y1 x2 y2 where dd: "d = (x1, y1, x2, y2)" by (cases d) auto
  define cx where "cx = 0.5 * real_of_int (rx1 rr + rx2 rr)"
  define cy where "cy = 0.5 * real_of_int (ry1 rr + ry2 rr)"
  define dcx where "dcx = 0.5 * real_of_int (x1 + x2)"
  define dcy where "dcy = 0.5 * real_of_int (y1 + y2)"
  have rb: "0 \<le> rx1 rr" "rx1 rr \<le> w" "0 \<le> rx2 rr" "rx2 rr \<le> w"
           "0 \<le> ry1 rr" "ry1 rr \<le> h" "0 \<le> ry2 rr" "ry2 rr \<le> h"
    using r by (simp_all add: box_in_frame_def roi_box_def)
  have db: "0 \<le> x1" "x1 \<le> w" "0 \<le> x2" "x2 \<le> w" "0 \<le> y1" "y1 \<le> h" "0 \<le> y2" "y2 \<le> h"
    using d by (simp_all add: box_in_frame_def dd)
  have c: "0 \<le> cx" "cx \<le> real_of_int w" "0 \<le> cy" "cy \<le> real_of_int h"
    using rb unfolding cx_def cy_def by simp_all
  have dc: "0 \<le> dcx" "dcx \<le> real_of_int w" "0 \<le> dcy" "dcy \<le> real_of_int h"
    using db unfolding dcx_def dcy_def by simp_all
  have dist: "sqrt ((dcx - cx) * (dcx - cx) + (dcy - cy) * (dcy - cy))
              \<le> sqrt (real_of_int w * real_of_int w + real_of_int h * real_of_int h)"
    using c dc by (intro center_distance_le_diag) simp_all
  have fd: "frame_diag w h = sqrt (real_of_int w * real_of_int w + real_of_int h * real_of_int h)"
    by (simp add: frame_diag_def)
  have pos: "0 < frame_diag w h" using d19 by linarith
  have m: "max (1 / 1000000) (frame_diag w h) = frame_diag w h" using d19 by simp
  have norm: "sqrt ((dcx - cx) * (dcx - cx) + (dcy - cy) * (dcy - cy)) / frame_diag w h \<le> 1"
    using dist pos by (simp add: fd[symmetric])
  have i: "0 \<le> iou (rx1 rr, ry1 rr, rx2 rr, ry2 rr) d" by (rule iou_nonneg)
  have ce: "cost_entry w h rr d =
          sqrt ((dcx - cx) * (dcx - cx) + (dcy - cy) * (dcy - cy)) / frame_diag w h
          + 0.5 * (1 - iou (rx1 rr, ry1 rr, rx2 rr, ry2 rr) d)"
    by (simp add: cost_entry_def roi_center_def Let_def m lambda_iou_def dd cx_def cy_def dcx_def dcy_def)
  define D where "D = sqrt ((dcx - cx) * (dcx - cx) + (dcy - cy) * (dcy - cy)) / frame_diag w h"
  define I where "I = iou (rx1 rr, ry1 rr, rx2 rr, ry2 rr) d"
  have "D \<le> 1" "0 \<le> I" using norm i by (simp_all add: D_def I_def)
  then have "D + 0.5 * (1 - I) \<le> 1.5" by (simp add: field_simps)
  then show ?thesis unfolding ce D_def I_def .
qed

lemma max_dist_ge: "19 \<le> frame_diag w h \<Longrightarrow> 1.5 \<le> max_dist w h"
  by (simp add: max_dist_def)

lemma frame_diag_640_480: "frame_diag 640 480 = 800"
  unfolding frame_diag_def by (rule real_sqrt_unique) simp_all

lemma frame_diag_4_3: "frame_diag 4 3 = 5"
  unfolding frame_diag_def by (rule real_sqrt_unique) simp_all

text \<open>
  C6: on a frame that is not 0 x 0, the cost of pairing a slot with a detection is the
  Euclidean distance of the two box centres divided by the frame diagonal, plus 0.5 times
  (1 - IoU of the slot's box and the detection's box), and this is the entry of the cost
  matrix at the slot's row and the detection's column. A pair whose cost exceeds 0.08 times
  the frame diagonal leaves the ROI list and the processor as they were: no reseed is
  applied for it. The pairs come from \<open>linear_sum_assignment\<close>; the statement holds for
  any pairs.
\<close>

theorem reseed_cost_and_gate:
  "(image_width \<noteq> 0 \<or> image_height \<noteq> 0 \<longrightarrow>
      cost_entry image_width image_height rr (x1, y1, x2, y2) =
        sqrt ((real_of_int (x1 + x2) / 2 - real_of_int (rx1 rr + rx2 rr) / 2)\<^sup>2
            + (real_of_int (y1 + y2) / 2 - real_of_int (ry1 rr + ry2 rr) / 2)\<^sup>2)
          / sqrt (real_of_int (image_width * image_width + image_height * image_height))
        + 0.5 * (1 - iou (roi_box rr) (x1, y1, x2, y2)))
   \<and> (r_i < length need \<and> c_j < length pbs \<longrightarrow>
        cost_matrix image_width image_height rois need pbs ! r_i ! c_j =
          cost_entry image_width image_height (rois ! (need ! r_i)) (pbs ! c_j))
   \<and> (0.08 * sqrt (real_of_int (image_width * image_width + image_height * image_height))
          < cost ! r_i ! c_j \<longrightarrow>
        reseed_pair image_width image_height hbs need pbs cost (r_i, c_j) s = s)"
proof (intro conjI impI)
  assume "image_width \<noteq> 0 \<or> image_height \<noteq> 0"
  then show "cost_entry image_width image_height rr (x1, y1, x2, y2) =
        sqrt ((real_of_int (x1 + x2) / 2 - real_of_int (rx1 rr + rx2 rr) / 2)\<^sup>2
            + (real_of_int (y1 + y2) / 2 - real_of_int (ry1 rr + ry2 rr) / 2)\<^sup>2)
          / sqrt (real_of_int (image_width * image_width + image_height * image_height))
        + 0.5 * (1 - iou (roi_box rr) (x1, y1, x2, y2))"
    by (rule cost_entry_formula)
next
  assume "r_i < length need \<and> c_j < length pbs"
  then show "cost_matrix image_width image_height rois need pbs ! r_i ! c_j =
          cost_entry image_width image_height (rois ! (need ! r_i)) (pbs ! c_j)"
    by (simp add: cost_matrix_entry)
next
  assume "0.08 * sqrt (real_of_int (image_width * image_width + image_height * image_height))
          < cost ! r_i ! c_j"
  then have "max_dist image_width image_height < cost ! r_i ! c_j"
    by (simp add: max_dist_def frame_diag_def)
  then show "reseed_pair image_width image_height hbs need pbs cost (r_i, c_j) s = s"
    by (rule reseed_pair_gate)
qed

theorem reseed_cost_and_gate_witness:
  "(4 :: int) \<noteq> 0
   \<and> cost_entry 4 3 \<lparr>rx1 = 0, ry1 = 0, rx2 = 2, ry2 = 2, lost = 10, pose = 1, overlap_streak = 0\<rparr>
         (2, 1, 4, 3) = sqrt 5 / 5 + 1 / 2
   \<and> 0.08 * sqrt (real_of_int (4 * 4 + 3 * 3)) < [[sqrt 5 / 5 + 1 / 2]] ! 0 ! 0
   \<and> reseed_pair 4 3 [] [0] [(2, 1, 4, 3)] [[sqrt 5 / 5 + 1 / 2]] (0, 0)
         ([\<lparr>rx1 = 0, ry1 = 0, rx2 = 2, ry2 = 2, lost = 10, pose = 1, overlap_streak = 0\<rparr>],
          example_processor) =
       ([\<lparr>rx1 = 0, ry1 = 0, rx2 = 2, ry2 = 2, lost = 10, pose = 1, overlap_streak = 0\<rparr>],
        example_processor)"
proof -
  let ?rr = "\<lparr>rx1 = 0, ry1 = 0, rx2 = 2, ry2 = 2, lost = 10, pose = 1, overlap_streak = 0\<rparr>"
  let ?s = "([?rr], example_processor)"
  note t = reseed_cost_and_gate[of 4 3 ?rr 2 1 4 3 0 "[0]" 0 "[(2, 1, 4, 3)]" "[?rr]"
             "[[sqrt 5 / 5 + 1 / 2]]" "[]" ?s]
  have i: "iou (roi_box ?rr) (2, 1, 4, 3) = 0"
    by (simp add: iou_def union_area_def box_area_def inter_area_def roi_box_def)
  have s25: "sqrt 25 = 5" by (rule real_sqrt_unique) simp_all
  have nz: "(4 :: int) \<noteq> 0 \<or> (3 :: int) \<noteq> 0" by simp
  from t nz have f: "cost_entry 4 3 ?rr (2, 1, 4, 3) =
        sqrt ((real_of_int (2 + 4) / 2 - real_of_int (rx1 ?rr + rx2 ?rr) / 2)\<^sup>2
            + (real_of_int (1 + 3) / 2 - real_of_int (ry1 ?rr + ry2 ?rr) / 2)\<^sup>2)
          / sqrt (real_of_int (4 * 4 + 3 * 3))
        + 0.5 * (1 - iou (roi_box ?rr) (2, 1, 4, 3))"
    by blast
  have c: "cost_entry 4 3 ?rr (2, 1, 4, 3) = sqrt 5 / 5 + 1 / 2"
    unfolding f i by (simp add: s25)
  have nn: "0 \<le> sqrt 5" by simp
  have g: "0.08 * sqrt (real_of_int (4 * 4 + 3 * 3)) < [[sqrt 5 / 5 + 1 / 2]] ! 0 ! 0"
  proof -
    have "0.08 * sqrt (real_of_int (4 * 4 + 3 * 3)) = 2 / 5" by (simp add: s25)
    moreover have "(2 :: real) / 5 < sqrt 5 / 5 + 1 / 2" using nn by linarith
    ultimately show ?thesis by simp
  qed
  have r: "reseed_pair 4 3 [] [0] [(2, 1, 4, 3)] [[sqrt 5 / 5 + 1 / 2]] (0, 0) ?s = ?s"
    using t g by blast
  show ?thesis using c g r by simp
qed

text \<open>
  The gate of line 157 lets every pair of a slot and a detection within the frame through
  when the diagonal is at least 19: the loop body then does what lines 159-179 do, whatever
  the cost.
\<close>

lemma reseed_pair_accepts:
  assumes d19: "19 \<le> frame_diag w h"
      and r: "r_i < length need" and c: "c_j < length pbs"
      and br: "box_in_frame w h (roi_box (rois0 ! (need ! r_i)))"
      and bd: "box_in_frame w h (pbs ! c_j)"
  shows "reseed_pair w h hbs need pbs (cost_matrix w h rois0 need pbs) (r_i, c_j) (cur, q) =
           (if conflicts hbs (expand_detection w h (pbs ! c_j)) then (cur, q)
            else (cur[need ! r_i :=
                    reseed_onto w h (smooth_alpha q) (poses_created q) (cur ! (need ! r_i)) (pbs ! c_j)],
                  q\<lparr>poses_closed := poses_closed q @ [pose (cur ! (need ! r_i))],
                    poses_created := Suc (poses_created q)\<rparr>))"
proof -
  have e: "cost_matrix w h rois0 need pbs ! r_i ! c_j = cost_entry w h (rois0 ! (need ! r_i)) (pbs ! c_j)"
    using r c by (rule cost_matrix_entry)
  have "cost_entry w h (rois0 ! (need ! r_i)) (pbs ! c_j) \<le> 1.5"
    by (rule cost_entry_le[OF d19 br bd])
  moreover have "1.5 \<le> max_dist w h" by (rule max_dist_ge[OF d19])
  ultimately have g: "cost_matrix w h rois0 need pbs ! r_i ! c_j \<le> max_dist w h"
    unfolding e by linarith
  show ?thesis
    using r c g
    by (cases "pbs ! c_j")
       (simp add: reseed_pair_def expand_detection_def reseed_onto_def Let_def split: prod.splits)
qed

text \<open>
  C7: on a frame whose diagonal is at least 19, for a slot and a detection whose boxes lie
  within the frame, the cost is at most 1.5, and 1.5 is at most the gate bound of 0.08
  times the diagonal; so the comparison of line 157 never rejects such a pair: the entry of
  the cost matrix for the pair is not above the bound, and the loop body, run on that
  pair with the cost matrix of the frame, goes on to the conflict check of lines 161-168
  and, when the expanded detection conflicts with no healthy box, reseeds the slot onto
  the detection (closing the old estimator and constructing a new one), for every ROI list
  and processor state it is run in.
\<close>

theorem cost_gate_rejects_nothing:
  assumes "19 \<le> sqrt (real_of_int (image_width * image_width + image_height * image_height))"
      and "box_in_frame image_width image_height (roi_box rr)"
      and "box_in_frame image_width image_height d"
  shows "cost_entry image_width image_height rr d \<le> 1.5
       \<and> 1.5 \<le> 0.08 * sqrt (real_of_int (image_width * image_width + image_height * image_height))
       \<and> cost_entry image_width image_height rr d \<le> max_dist image_width image_height
       \<and> (r_i < length need \<and> c_j < length pbs \<and> rois ! (need ! r_i) = rr \<and> pbs ! c_j = d \<longrightarrow>
            \<not> max_dist image_width image_height
                < cost_matrix image_width image_height rois need pbs ! r_i ! c_j)
       \<and> (r_i < length need \<and> c_j < length pbs \<and> rois ! (need ! r_i) = rr \<and> pbs ! c_j = d \<longrightarrow>
            (\<forall>locked_rois p.
               reseed_pair image_width image_height hbs need pbs
                 (cost_matrix image_width image_height rois need pbs) (r_i, c_j) (locked_rois, p) =
               (if conflicts hbs (expand_detection image_width image_height d) then (locked_rois, p)
                else (locked_rois[need ! r_i :=
                        reseed_onto image_width image_height (smooth_alpha p) (poses_created p)
                          (locked_rois ! (need ! r_i)) d],
                      p\<lparr>poses_closed := poses_closed p @ [pose (locked_rois ! (need ! r_i))],
                        poses_created := Suc (poses_created p)\<rparr>))))"
proof -
  have d19: "19 \<le> frame_diag image_width image_height" using assms(1) by (simp add: frame_diag_def)
  have a: "cost_entry image_width image_height rr d \<le> 1.5"
    by (rule cost_entry_le[OF d19 assms(2,3)])
  have b: "1.5 \<le> max_dist image_width image_height" by (rule max_dist_ge[OF d19])
  have b': "1.5 \<le> 0.08 * sqrt (real_of_int (image_width * image_width + image_height * image_height))"
    using b by (simp add: max_dist_def frame_diag_def)
  have c: "cost_entry image_width image_height rr d \<le> max_dist image_width image_height"
    using a b by linarith
  have m: "r_i < length need \<and> c_j < length pbs \<and> rois ! (need ! r_i) = rr \<and> pbs ! c_j = d \<longrightarrow>
            \<not> max_dist image_width image_height
                < cost_matrix image_width image_height rois need pbs ! r_i ! c_j"
    using c by (auto simp: cost_matrix_entry)
  have g: "r_i < length need \<and> c_j < length pbs \<and> rois ! (need ! r_i) = rr \<and> pbs ! c_j = d \<longrightarrow>
            (\<forall>locked_rois p.
               reseed_pair image_width image_height hbs need pbs
                 (cost_matrix image_width image_height rois need pbs) (r_i, c_j) (locked_rois, p) =
               (if conflicts hbs (expand_detection image_width image_height d) then (locked_rois, p)
                else (locked_rois[need ! r_i :=
                        reseed_onto image_width image_height (smooth_alpha p) (poses_created p)
                          (locked_rois ! (need ! r_i)) d],
                      p\<lparr>poses_closed := poses_closed p @ [pose (locked_rois ! (need ! r_i))],
                        poses_created := Suc (poses_created p)\<rparr>)))"
  proof (intro impI allI)
    fix locked_rois p
    assume h: "r_i < length need \<and> c_j < length pbs \<and> rois ! (need ! r_i) = rr \<and> pbs ! c_j = d"
    have br: "box_in_frame image_width image_height (roi_box (rois ! (need ! r_i)))"
      using h assms(2) by simp
    have bd: "box_in_frame image_width image_height (pbs ! c_j)" using h assms(3) by simp
    have r: "r_i < length need" and cj: "c_j < length pbs" using h by simp_all
    show "reseed_pair image_width image_height hbs need pbs
                 (cost_matrix image_width image_height rois need pbs) (r_i, c_j) (locked_rois, p) =
               (if conflicts hbs (expand_detection image_width image_height d) then (locked_rois, p)
                else (locked_rois[need ! r_i :=
                        reseed_onto image_width image_height (smooth_alpha p) (poses_created p)
                          (locked_rois ! (need ! r_i)) d],
                      p\<lparr>poses_closed := poses_closed p @ [pose (locked_rois ! (need ! r_i))],
                        poses_created := Suc (poses_created p)\<rparr>))"
      using reseed_pair_accepts[OF d19 r cj br bd, of hbs locked_rois p] h by simp
  qed
  show ?thesis by (intro conjI a b' c m g)
qed

theorem cost_gate_rejects_nothing_witness:
  "19 \<le> sqrt (real_of_int (640 * 640 + 480 * 480))
   \<and> box_in_frame 640 480 (roi_box (example_rois ! 1))
   \<and> box_in_frame 640 480 (10, 10, 90, 300)
   \<and> cost_entry 640 480 (example_rois ! 1) (10, 10, 90, 300) \<le> max_dist 640 480
   \<and> max_dist 640 480 = 64
   \<and> box_in_frame 640 480 (roi_box (example_reseed_rois ! 1))
   \<and> box_in_frame 640 480 (210, 10, 290, 90)
   \<and> reseed_pair 640 480 [(0, 0, 100, 100)] [1] [(210, 10, 290, 90)]
        (cost_matrix 640 480 example_reseed_rois [1] [(210, 10, 290, 90)]) (0, 0)
        (example_reseed_rois, example_processor) =
      ([\<lparr>rx1 = 0, ry1 = 0, rx2 = 100, ry2 = 100, lost = 0, pose = 1, overlap_streak = 0\<rparr>,
        \<lparr>rx1 = 195, ry1 = 0, rx2 = 305, ry2 = 105, lost = 0, pose = 3, overlap_streak = 0\<rparr>],
       example_processor\<lparr>poses_closed := [2], poses_created := 4\<rparr>)"
proof -
  have s: "sqrt (real_of_int (640 * 640 + 480 * 480)) = 800"
    by (rule real_sqrt_unique) simp_all
  have h1: "19 \<le> sqrt (real_of_int (640 * 640 + 480 * 480))" unfolding s by simp
  have h2: "box_in_frame 640 480 (roi_box (example_rois ! 1))"
    by (simp add: box_in_frame_def roi_box_def example_rois_def)
  have h3: "box_in_frame 640 480 (10, 10, 90, 300)" by (simp add: box_in_frame_def)
  have m: "max_dist 640 480 = 64" by (simp add: max_dist_def frame_diag_640_480)
  have k2: "box_in_frame 640 480 (roi_box (example_reseed_rois ! 1))"
    by (simp add: box_in_frame_def roi_box_def example_reseed_rois_def)
  have k3: "box_in_frame 640 480 (210, 10, 290, 90)" by (simp add: box_in_frame_def)
  have ex: "expand_detection 640 480 (210, 10, 290, 90) = (190, 0, 310, 110)"
    by (simp add: expand_detection_def expand_and_clip_bbox_def Let_def py_int_def)
  have nc: "\<not> conflicts [(0, 0, 100, 100)] (190, 0, 310, 110)"
    by (simp add: conflicts_def reserved_iou_def iou_def union_area_def box_area_def inter_area_def)
  have sm: "smooth_box (200, 0, 300, 100) (190, 0, 310, 110) (1 / 2) = (195, 0, 305, 105)"
    by (simp add: smooth_box_def py_int_def)
  have on: "reseed_onto 640 480 (smooth_alpha example_processor) (poses_created example_processor)
              (example_reseed_rois ! ([1] ! 0)) (210, 10, 290, 90) =
      \<lparr>rx1 = 195, ry1 = 0, rx2 = 305, ry2 = 105, lost = 0, pose = 3, overlap_streak = 0\<rparr>"
    by (simp add: reseed_onto_def ex example_reseed_rois_def roi_box_def sm
          example_processor_def init_processor_def)
  have pre: "0 < length [1 :: nat] \<and> 0 < length [(210 :: int, 10 :: int, 290 :: int, 90 :: int)]
      \<and> example_reseed_rois ! ([1] ! 0) = example_reseed_rois ! 1
      \<and> [(210 :: int, 10 :: int, 290 :: int, 90 :: int)] ! 0 = (210, 10, 290, 90)"
    by simp
  note t = cost_gate_rejects_nothing[OF h1 k2 k3, where r_i = 0 and c_j = 0 and need = "[1]"
      and pbs = "[(210, 10, 290, 90)]" and rois = example_reseed_rois
      and hbs = "[(0, 0, 100, 100)]",
      THEN conjunct2, THEN conjunct2, THEN conjunct2, THEN conjunct2, THEN mp, OF pre,
      rule_format, of example_reseed_rois example_processor]
  have rp: "reseed_pair 640 480 [(0, 0, 100, 100)] [1] [(210, 10, 290, 90)]
        (cost_matrix 640 480 example_reseed_rois [1] [(210, 10, 290, 90)]) (0, 0)
        (example_reseed_rois, example_processor) =
      ([\<lparr>rx1 = 0, ry1 = 0, rx2 = 100, ry2 = 100, lost = 0, pose = 1, overlap_streak = 0\<rparr>,
        \<lparr>rx1 = 195, ry1 = 0, rx2 = 305, ry2 = 105, lost = 0, pose = 3, overlap_streak = 0\<rparr>],
       example_processor\<lparr>poses_closed := [2], poses_created := 4\<rparr>)"
    unfolding t ex on
    by (simp add: nc) (simp add: example_processor_def init_processor_def example_reseed_rois_def)
  have c: "cost_entry 640 480 (example_rois ! 1) (10, 10, 90, 300) \<le> max_dist 640 480"
    using cost_gate_rejects_nothing[OF h1 h2 h3] by (rule conjunct2[THEN conjunct2, THEN conjunct1])
  show ?thesis by (intro conjI h1 h2 h3 c m k2 k3 rp)
qed


section \<open>Reservation of detections for healthy ROIs\<close>

lemma conflicts_iff: "conflicts hbs b \<longleftrightarrow> (\<exists>hb\<in>set hbs. reserved_iou \<le> iou b hb)"
  by (simp add: conflicts_def list_ex_iff)

lemma not_conflicts_iff: "\<not> conflicts hbs b \<longleftrightarrow> (\<forall>hb\<in>set hbs. iou b hb < 0.5)"
  by (auto simp: conflicts_iff reserved_iou_def not_le)

lemma filter_reserved_iff:
  "d \<in> set (filter_reserved hbs pbs) \<longleftrightarrow> d \<in> set pbs \<and> (\<forall>hb\<in>set hbs. iou d hb < 0.5)"
  by (simp add: filter_reserved_def not_conflicts_iff)

lemma healthy_boxes_set: "set (healthy_boxes rois) = roi_box ` {r \<in> set rois. lost r = 0}"
  by (auto simp: healthy_boxes_def)

text \<open>What the loop body does when it does anything.\<close>

lemma reseed_pair_cases:
  "reseed_pair w h hbs need pbs cost (r_i, c_j) (rois, p) = (rois, p)
   \<or> (r_i < length need \<and> c_j < length pbs
      \<and> cost ! r_i ! c_j \<le> max_dist w h
      \<and> \<not> conflicts hbs (expand_detection w h (pbs ! c_j))
      \<and> reseed_pair w h hbs need pbs cost (r_i, c_j) (rois, p) =
          (rois[need ! r_i :=
             (case smooth_box (roi_box (rois ! (need ! r_i))) (expand_detection w h (pbs ! c_j))
                     (smooth_alpha p) of
                (sx1, sy1, sx2, sy2) \<Rightarrow>
                  (rois ! (need ! r_i))\<lparr>rx1 := sx1, ry1 := sy1, rx2 := sx2, ry2 := sy2,
                                         pose := poses_created p, lost := 0\<rparr>)],
           p\<lparr>poses_closed := poses_closed p @ [pose (rois ! (need ! r_i))],
             poses_created := Suc (poses_created p)\<rparr>))"
  by (cases "pbs ! c_j")
     (auto simp: reseed_pair_def expand_detection_def Let_def split: prod.splits)


lemma reseed_pair_invariant:
  assumes len: "length rs = length rois"
      and inv: "\<forall>i<length rois. rs ! i = rois ! i
                  \<or> (lost (rs ! i) = 0 \<and> (\<exists>d\<in>set pbs. \<not> conflicts hbs (expand_detection w h d)))"
      and step: "reseed_pair w h hbs need pbs cost rc (rs, q) = (rs', q')"
  shows "length rs' = length rois
       \<and> (\<forall>i<length rois. rs' ! i = rois ! i
                  \<or> (lost (rs' ! i) = 0 \<and> (\<exists>d\<in>set pbs. \<not> conflicts hbs (expand_detection w h d))))"
proof -
  obtain r_i c_j where rc: "rc = (r_i, c_j)" by (cases rc) auto
  from reseed_pair_cases[of w h hbs need pbs cost r_i c_j rs q]
  show ?thesis
  proof
    assume "reseed_pair w h hbs need pbs cost (r_i, c_j) (rs, q) = (rs, q)"
    with step rc have "rs' = rs" by simp
    with len inv show ?thesis by simp
  next
    assume a: "r_i < length need \<and> c_j < length pbs
      \<and> cost ! r_i ! c_j \<le> max_dist w h
      \<and> \<not> conflicts hbs (expand_detection w h (pbs ! c_j))
      \<and> reseed_pair w h hbs need pbs cost (r_i, c_j) (rs, q) =
          (rs[need ! r_i :=
             (case smooth_box (roi_box (rs ! (need ! r_i))) (expand_detection w h (pbs ! c_j))
                     (smooth_alpha q) of
                (sx1, sy1, sx2, sy2) \<Rightarrow>
                  (rs ! (need ! r_i))\<lparr>rx1 := sx1, ry1 := sy1, rx2 := sx2, ry2 := sy2,
                                       pose := poses_created q, lost := 0\<rparr>)],
           q\<lparr>poses_closed := poses_closed q @ [pose (rs ! (need ! r_i))],
             poses_created := Suc (poses_created q)\<rparr>)"
    define r' where "r' = (case smooth_box (roi_box (rs ! (need ! r_i)))
                                  (expand_detection w h (pbs ! c_j)) (smooth_alpha q) of
                (sx1, sy1, sx2, sy2) \<Rightarrow>
                  (rs ! (need ! r_i))\<lparr>rx1 := sx1, ry1 := sy1, rx2 := sx2, ry2 := sy2,
                                       pose := poses_created q, lost := 0\<rparr>)"
    have l0: "lost r' = 0" by (simp add: r'_def split: prod.splits)
    have rs': "rs' = rs[need ! r_i := r']" using a step rc by (simp add: r'_def)
    have d: "\<exists>d\<in>set pbs. \<not> conflicts hbs (expand_detection w h d)"
      using a nth_mem[of c_j pbs] by blast
    have "\<forall>i<length rois. rs' ! i = rois ! i
                  \<or> (lost (rs' ! i) = 0 \<and> (\<exists>d\<in>set pbs. \<not> conflicts hbs (expand_detection w h d)))"
    proof (rule allI, rule impI)
      fix i assume i: "i < length rois"
      show "rs' ! i = rois ! i
                  \<or> (lost (rs' ! i) = 0 \<and> (\<exists>d\<in>set pbs. \<not> conflicts hbs (expand_detection w h d)))"
      proof (cases "i = need ! r_i")
        case True
        then have "rs' ! i = r'" using i len by (simp add: rs')
        then show ?thesis using l0 d by simp
      next
        case False
        then have "rs' ! i = rs ! i" by (simp add: rs')
        then show ?thesis using inv i by simp
      qed
    qed
    then show ?thesis using len by (simp add: rs')
  qed
qed

lemma fold_reseed_pair_invariant:
  assumes "length rs = length rois"
      and "\<forall>i<length rois. rs ! i = rois ! i
                  \<or> (lost (rs ! i) = 0 \<and> (\<exists>d\<in>set pbs. \<not> conflicts hbs (expand_detection w h d)))"
      and "fold (reseed_pair w h hbs need pbs cost) pairs (rs, q) = (rs', q')"
  shows "length rs' = length rois
       \<and> (\<forall>i<length rois. rs' ! i = rois ! i
                  \<or> (lost (rs' ! i) = 0 \<and> (\<exists>d\<in>set pbs. \<not> conflicts hbs (expand_detection w h d))))"
  using assms
proof (induction pairs arbitrary: rs q)
  case Nil
  then show ?case by simp
next
  case (Cons rc pairs)
  obtain rs1 q1 where s1: "reseed_pair w h hbs need pbs cost rc (rs, q) = (rs1, q1)"
    by (cases "reseed_pair w h hbs need pbs cost rc (rs, q)") auto
  note i1 = reseed_pair_invariant[OF Cons.prems(1,2) s1]
  have f: "fold (reseed_pair w h hbs need pbs cost) pairs (rs1, q1) = (rs', q')"
    using Cons.prems(3) s1 by simp
  show ?case
    by (rule Cons.IH[OF _ _ f]) (use i1 in blast)+
qed

lemma reseed_step_slots:
  assumes d: "detect env = Detections boxes"
      and r: "reseed_step env w h need (rois, p) = Inr (rois', p')"
  shows "length rois' = length rois
       \<and> (\<forall>i<length rois. rois' ! i = rois ! i
            \<or> (lost (rois' ! i) = 0
               \<and> (\<exists>d\<in>set (person_boxes_of boxes).
                     (\<forall>hb\<in>set (healthy_boxes rois). iou d hb < 0.5)
                   \<and> (\<forall>hb\<in>set (healthy_boxes rois). iou (expand_detection w h d) hb < 0.5))))"
proof (cases "need = [] \<or> filter_reserved (healthy_boxes rois) (person_boxes_of boxes) = []")
  case True
  with d r have "rois' = rois"
    by (auto simp: reseed_step_def yolo_predict_def Let_def split: if_splits)
  then show ?thesis by simp
next
  case False
  define hbs where "hbs = healthy_boxes rois"
  define pbs where "pbs = filter_reserved hbs (person_boxes_of boxes)"
  define cost where "cost = cost_matrix w h rois need pbs"
  from False d r obtain q where
    f: "fold (reseed_pair w h hbs need pbs cost) (assignment env cost) (rois, q) = (rois', p')"
    by (auto simp: reseed_step_def yolo_predict_def Let_def hbs_def pbs_def cost_def split: if_splits)
  have init: "\<forall>i<length rois. rois ! i = rois ! i
                  \<or> (lost (rois ! i) = 0 \<and> (\<exists>d\<in>set pbs. \<not> conflicts hbs (expand_detection w h d)))"
    by simp
  note inv = fold_reseed_pair_invariant[OF refl init f]
  have ex: "(\<exists>d\<in>set pbs. \<not> conflicts hbs (expand_detection w h d)) \<Longrightarrow>
            (\<exists>d\<in>set (person_boxes_of boxes).
                     (\<forall>hb\<in>set (healthy_boxes rois). iou d hb < 0.5)
                   \<and> (\<forall>hb\<in>set (healthy_boxes rois). iou (expand_detection w h d) hb < 0.5))"
    unfolding pbs_def hbs_def filter_reserved_iff not_conflicts_iff Bex_def by blast
  show ?thesis using inv ex by blast
qed

lemma reseed_step_all_reserved:
  assumes d: "detect env = Detections boxes"
      and r: "reseed_step env w h need (rois, p) = Inr (rois', p')"
      and a: "\<forall>d\<in>set (person_boxes_of boxes). \<exists>hb\<in>set (healthy_boxes rois). 0.5 \<le> iou d hb"
  shows "rois' = rois"
proof -
  have "filter_reserved (healthy_boxes rois) (person_boxes_of boxes) = []"
    unfolding filter_empty_conv filter_reserved_def conflicts_iff reserved_iou_def
    using a by auto
  with d r show ?thesis
    by (auto simp: reseed_step_def yolo_predict_def Let_def split: if_splits)
qed

lemma reseed_step_unfold:
  assumes "need \<noteq> []" "yolo p" "detect env = Detections boxes"
      and "person_boxes_of boxes = pb" "healthy_boxes rois = hbs"
      and "filter_reserved hbs pb = pbs" "pbs \<noteq> []"
      and "cost_matrix w h rois need pbs = cost" "assignment env cost = pairs"
      and "fold (reseed_pair w h hbs need pbs cost) pairs
             (rois, p\<lparr>predict_calls := predict_calls p + 1\<rparr>) = res"
  shows "reseed_step env w h need (rois, p) = Inr res"
  using assms by (auto simp: reseed_step_def yolo_predict_def Let_def)

lemma reseed_example_all_reserved: "reseed_step
        \<lparr>estimate = (\<lambda>i. NoLandmarks), detect = Detections [(0, 0, 100, 60, 0.9, 0)],
          assignment = (\<lambda>c. [(0, 0)]), yolo_loads = True,
          estimate_retry = (\<lambda>i k. NoLandmarks), detect_retry = (\<lambda>k. Detections [])\<rparr>
        640 480 [1]
        (example_reseed_rois, example_processor) = Inr (example_reseed_rois, example_processor\<lparr>predict_calls := 1\<rparr>)"
  by (simp add: reseed_step_def yolo_predict_def example_processor_def init_processor_def py_int_def
        healthy_boxes_def roi_box_def filter_reserved_def conflicts_def reserved_iou_def
        iou_def union_area_def box_area_def inter_area_def example_reseed_rois_def)

lemma reseed_example_free_detection: "reseed_step
        \<lparr>estimate = (\<lambda>i. NoLandmarks),
          detect = Detections [(0, 0, 100, 60, 0.9, 0), (210, 10, 290, 90, 0.8, 0)],
          assignment = (\<lambda>c. [(0, 0)]), yolo_loads = True,
          estimate_retry = (\<lambda>i k. NoLandmarks), detect_retry = (\<lambda>k. Detections [])\<rparr>
        640 480 [1]
        (example_reseed_rois, example_processor) = 
       Inr ([\<lparr>rx1 = 0, ry1 = 0, rx2 = 100, ry2 = 100, lost = 0, pose = 1, overlap_streak = 0\<rparr>,
      \<lparr>rx1 = 195, ry1 = 0, rx2 = 305, ry2 = 105, lost = 0, pose = 3, overlap_streak = 0\<rparr>],
       example_processor\<lparr>predict_calls := 1, poses_closed := [2], poses_created := 4\<rparr>)"
proof -
  have pb: "person_boxes_of [(0, 0, 100, 60, 0.9, 0), (210, 10, 290, 90, 0.8, 0)]
            = [(0, 0, 100, 60), (210, 10, 290, 90)]" by (simp add: py_int_def)
  have hb: "healthy_boxes example_reseed_rois = [(0, 0, 100, 100)]"
    by (simp add: healthy_boxes_def roi_box_def example_reseed_rois_def)
  have fr: "filter_reserved [(0, 0, 100, 100)] [(0, 0, 100, 60), (210, 10, 290, 90)] = [(210, 10, 290, 90)]"
    by (simp add: filter_reserved_def conflicts_def reserved_iou_def
        iou_def union_area_def box_area_def inter_area_def)
  have r1: "example_reseed_rois ! 1 =
      \<lparr>rx1 = 200, ry1 = 0, rx2 = 300, ry2 = 100, lost = 10, pose = 2, overlap_streak = 0\<rparr>"
    by (simp add: example_reseed_rois_def)
  have i: "iou (200, 0, 300, 100) (210, 10, 290, 90) = 16 / 25"
    by (simp add: iou_def union_area_def box_area_def inter_area_def)
  have ce: "cost_entry 640 480 (example_reseed_rois ! 1) (210, 10, 290, 90) = 9 / 50"
    unfolding r1 cost_entry_def
    by (simp add: roi_center_def Let_def frame_diag_640_480 lambda_iou_def i)
  have cm: "cost_matrix 640 480 example_reseed_rois [1] [(210, 10, 290, 90)] = [[9 / 50]]"
    by (simp add: cost_matrix_def ce[unfolded One_nat_def])
  have ex: "expand_and_clip_bbox 210 10 290 90 640 480 (1 / 4) = (190, 0, 310, 110)"
    by (simp add: expand_and_clip_bbox_def Let_def py_int_def)
  have nc: "\<not> conflicts [(0, 0, 100, 100)] (190, 0, 310, 110)"
    by (simp add: conflicts_def reserved_iou_def iou_def union_area_def box_area_def inter_area_def)
  have sm: "smooth_box (200, 0, 300, 100) (190, 0, 310, 110) (1 / 2) = (195, 0, 305, 105)"
    by (simp add: smooth_box_def py_int_def)
  have rp: "reseed_pair 640 480 [(0, 0, 100, 100)] [1] [(210, 10, 290, 90)] [[9 / 50]] (0, 0)
              (example_reseed_rois, example_processor\<lparr>predict_calls := 1\<rparr>) =
            ([\<lparr>rx1 = 0, ry1 = 0, rx2 = 100, ry2 = 100, lost = 0, pose = 1, overlap_streak = 0\<rparr>,
      \<lparr>rx1 = 195, ry1 = 0, rx2 = 305, ry2 = 105, lost = 0, pose = 3, overlap_streak = 0\<rparr>],
       example_processor\<lparr>predict_calls := 1, poses_closed := [2], poses_created := 4\<rparr>)"
    by (simp add: reseed_pair_def max_dist_def frame_diag_640_480 ex nc Let_def example_reseed_rois_def roi_box_def
          example_processor_def init_processor_def sm)
  show ?thesis
  proof (rule reseed_step_unfold[where pairs = "[(0, 0)]"])
    show "[1 :: nat] \<noteq> []" by simp
    show "yolo example_processor" by (simp add: example_processor_def)
    show "detect \<lparr>estimate = (\<lambda>i. NoLandmarks),
          detect = Detections [(0, 0, 100, 60, 0.9, 0), (210, 10, 290, 90, 0.8, 0)],
          assignment = (\<lambda>c. [(0, 0)]), yolo_loads = True,
          estimate_retry = (\<lambda>i k. NoLandmarks), detect_retry = (\<lambda>k. Detections [])\<rparr> =
          Detections [(0, 0, 100, 60, 0.9, 0), (210, 10, 290, 90, 0.8, 0)]" by simp
    show "person_boxes_of [(0, 0, 100, 60, 0.9, 0), (210, 10, 290, 90, 0.8, 0)]
            = [(0, 0, 100, 60), (210, 10, 290, 90)]" by (rule pb)
    show "healthy_boxes example_reseed_rois = [(0, 0, 100, 100)]" by (rule hb)
    show "filter_reserved [(0, 0, 100, 100)] [(0, 0, 100, 60), (210, 10, 290, 90)]
          = [(210, 10, 290, 90)]" by (rule fr)
    show "[(210 :: int, 10 :: int, 290 :: int, 90 :: int)] \<noteq> []" by simp
    show "cost_matrix 640 480 example_reseed_rois [1] [(210, 10, 290, 90)] = [[9 / 50]]" by (rule cm)
    show "assignment \<lparr>estimate = (\<lambda>i. NoLandmarks),
          detect = Detections [(0, 0, 100, 60, 0.9, 0), (210, 10, 290, 90, 0.8, 0)],
          assignment = (\<lambda>c. [(0, 0)]), yolo_loads = True,
          estimate_retry = (\<lambda>i k. NoLandmarks), detect_retry = (\<lambda>k. Detections [])\<rparr> [[9 / 50]] = [(0, 0)]" by simp
    show "fold (reseed_pair 640 480 [(0, 0, 100, 100)] [1] [(210, 10, 290, 90)] [[9 / 50]]) [(0, 0)]
            (example_reseed_rois, example_processor\<lparr>predict_calls := predict_calls example_processor + 1\<rparr>) =
          ([\<lparr>rx1 = 0, ry1 = 0, rx2 = 100, ry2 = 100, lost = 0, pose = 1, overlap_streak = 0\<rparr>,
            \<lparr>rx1 = 195, ry1 = 0, rx2 = 305, ry2 = 105, lost = 0, pose = 3, overlap_streak = 0\<rparr>],
           example_processor\<lparr>predict_calls := 1, poses_closed := [2], poses_created := 4\<rparr>)"
      using rp by (simp add: example_processor_def init_processor_def)
  qed
qed


text \<open>
  Every change that the loop body makes is a reseed of a slot needing reseed onto a
  detection that passed the filter and whose expanded box conflicts with no healthy box.
\<close>

lemma reseed_pair_onto:
  "reseed_pair w h hbs need pbs cost (r_i, c_j) (rois, p) = (rois, p)
   \<or> (r_i < length need \<and> c_j < length pbs
      \<and> \<not> conflicts hbs (expand_detection w h (pbs ! c_j))
      \<and> reseed_pair w h hbs need pbs cost (r_i, c_j) (rois, p) =
          (rois[need ! r_i :=
             reseed_onto w h (smooth_alpha p) (poses_created p) (rois ! (need ! r_i)) (pbs ! c_j)],
           p\<lparr>poses_closed := poses_closed p @ [pose (rois ! (need ! r_i))],
             poses_created := Suc (poses_created p)\<rparr>))"
  unfolding reseed_onto_def
  using reseed_pair_cases[of w h hbs need pbs cost r_i c_j rois p]
  by (elim disjE conjE) simp_all

lemma reseed_pair_alpha:
  "reseed_pair w h hbs need pbs cost rc (rs, q) = (rs', q') \<Longrightarrow> smooth_alpha q' = smooth_alpha q"
  using reseed_pair_onto[of w h hbs need pbs cost "fst rc" "snd rc" rs q]
  by auto

lemma reseed_pair_chain:
  assumes ch: "reseed_chain w h alpha (set need) D rois rs"
      and al: "smooth_alpha q = alpha"
      and sub: "\<forall>d\<in>set pbs. \<not> conflicts hbs (expand_detection w h d) \<longrightarrow> d \<in> D"
      and step: "reseed_pair w h hbs need pbs cost rc (rs, q) = (rs', q')"
  shows "reseed_chain w h alpha (set need) D rois rs'"
proof -
  obtain r_i c_j where rc: "rc = (r_i, c_j)" by (cases rc) auto
  from reseed_pair_onto[of w h hbs need pbs cost r_i c_j rs q]
  show ?thesis
  proof
    assume "reseed_pair w h hbs need pbs cost (r_i, c_j) (rs, q) = (rs, q)"
    with step rc have "rs' = rs" by simp
    with ch show ?thesis by simp
  next
    assume a: "r_i < length need \<and> c_j < length pbs
      \<and> \<not> conflicts hbs (expand_detection w h (pbs ! c_j))
      \<and> reseed_pair w h hbs need pbs cost (r_i, c_j) (rs, q) =
          (rs[need ! r_i :=
             reseed_onto w h (smooth_alpha q) (poses_created q) (rs ! (need ! r_i)) (pbs ! c_j)],
           q\<lparr>poses_closed := poses_closed q @ [pose (rs ! (need ! r_i))],
             poses_created := Suc (poses_created q)\<rparr>)"
    then have k: "need ! r_i \<in> set need" by simp
    have "pbs ! c_j \<in> set pbs" using a by simp
    then have d: "pbs ! c_j \<in> D" using a sub by blast
    have rs': "rs' = rs[need ! r_i :=
             reseed_onto w h alpha (poses_created q) (rs ! (need ! r_i)) (pbs ! c_j)]"
      using a step rc al by simp
    show ?thesis unfolding rs' by (rule chain_reseed[OF ch k d])
  qed
qed

lemma fold_reseed_pair_chain:
  assumes "reseed_chain w h alpha (set need) D rois rs"
      and "smooth_alpha q = alpha"
      and "\<forall>d\<in>set pbs. \<not> conflicts hbs (expand_detection w h d) \<longrightarrow> d \<in> D"
      and "fold (reseed_pair w h hbs need pbs cost) pairs (rs, q) = (rs', q')"
  shows "reseed_chain w h alpha (set need) D rois rs'"
  using assms
proof (induction pairs arbitrary: rs q)
  case Nil
  then show ?case by simp
next
  case (Cons rc pairs)
  obtain rs1 q1 where s1: "reseed_pair w h hbs need pbs cost rc (rs, q) = (rs1, q1)"
    by (cases "reseed_pair w h hbs need pbs cost rc (rs, q)") auto
  have c1: "reseed_chain w h alpha (set need) D rois rs1"
    by (rule reseed_pair_chain[OF Cons.prems(1,2,3) s1])
  have a1: "smooth_alpha q1 = alpha" using reseed_pair_alpha[OF s1] Cons.prems(2) by simp
  have f: "fold (reseed_pair w h hbs need pbs cost) pairs (rs1, q1) = (rs', q')"
    using Cons.prems(4) s1 by simp
  show ?case by (rule Cons.IH[OF c1 a1 Cons.prems(3) f])
qed

lemma reseed_step_fold:
  assumes d: "detect env = Detections boxes"
      and r: "reseed_step env w h need (rois, p) = Inr (rois', p')"
  shows "rois' = rois
       \<or> (\<exists>q. smooth_alpha q = smooth_alpha p
            \<and> fold (reseed_pair w h (healthy_boxes rois) need
                      (filter_reserved (healthy_boxes rois) (person_boxes_of boxes))
                      (cost_matrix w h rois need
                         (filter_reserved (healthy_boxes rois) (person_boxes_of boxes))))
                 (assignment env (cost_matrix w h rois need
                         (filter_reserved (healthy_boxes rois) (person_boxes_of boxes))))
                 (rois, q) = (rois', p'))"
  using d r
  by (auto simp: reseed_step_def yolo_predict_def Let_def split: if_splits)

lemma unreserved_sub:
  "\<forall>d\<in>set (filter_reserved (healthy_boxes rois) pb).
      \<not> conflicts (healthy_boxes rois) (expand_detection w h d) \<longrightarrow>
      d \<in> {d \<in> set pb.
              (\<forall>hb\<in>set (healthy_boxes rois). iou d hb < 0.5)
            \<and> (\<forall>hb\<in>set (healthy_boxes rois). iou (expand_detection w h d) hb < 0.5)}"
  by (simp add: filter_reserved_iff not_conflicts_iff)

lemma reseed_step_chain:
  assumes d: "detect env = Detections boxes"
      and r: "reseed_step env w h need (rois, p) = Inr (rois', p')"
  shows "reseed_chain w h (smooth_alpha p) (set need)
           {d \<in> set (person_boxes_of boxes).
              (\<forall>hb\<in>set (healthy_boxes rois). iou d hb < 0.5)
            \<and> (\<forall>hb\<in>set (healthy_boxes rois). iou (expand_detection w h d) hb < 0.5)}
           rois rois'"
proof -
  from reseed_step_fold[OF d r] show ?thesis
  proof
    assume "rois' = rois"
    then show ?thesis by (simp add: chain_start)
  next
    assume "\<exists>q. smooth_alpha q = smooth_alpha p
            \<and> fold (reseed_pair w h (healthy_boxes rois) need
                      (filter_reserved (healthy_boxes rois) (person_boxes_of boxes))
                      (cost_matrix w h rois need
                         (filter_reserved (healthy_boxes rois) (person_boxes_of boxes))))
                 (assignment env (cost_matrix w h rois need
                         (filter_reserved (healthy_boxes rois) (person_boxes_of boxes))))
                 (rois, q) = (rois', p')"
    then obtain q where q: "smooth_alpha q = smooth_alpha p"
      and f: "fold (reseed_pair w h (healthy_boxes rois) need
                      (filter_reserved (healthy_boxes rois) (person_boxes_of boxes))
                      (cost_matrix w h rois need
                         (filter_reserved (healthy_boxes rois) (person_boxes_of boxes))))
                 (assignment env (cost_matrix w h rois need
                         (filter_reserved (healthy_boxes rois) (person_boxes_of boxes))))
                 (rois, q) = (rois', p')" by blast
    show ?thesis
      by (rule fold_reseed_pair_chain[OF chain_start q unreserved_sub f])
  qed
qed


lemma reseed_pair_exact:
  assumes len: "length rs = length rois"
      and unt: "\<forall>i<length rois. i \<notin> T \<longrightarrow> rs ! i = rois ! i"
      and tou: "\<forall>i<length rois. i \<in> T \<longrightarrow>
                  i \<in> set need \<and> (\<exists>d\<in>D. \<exists>n. rs ! i = reseed_onto w h alpha n (rois ! i) d)"
      and fresh: "fst rc < length need \<longrightarrow> need ! fst rc \<notin> T"
      and al: "smooth_alpha q = alpha"
      and sub: "\<forall>d\<in>set pbs. \<not> conflicts hbs (expand_detection w h d) \<longrightarrow> d \<in> D"
      and step: "reseed_pair w h hbs need pbs cost rc (rs, q) = (rs', q')"
  shows "\<exists>T'. (T' = T \<or> (fst rc < length need \<and> T' = insert (need ! fst rc) T))
       \<and> length rs' = length rois
       \<and> (\<forall>i<length rois. i \<notin> T' \<longrightarrow> rs' ! i = rois ! i)
       \<and> (\<forall>i<length rois. i \<in> T' \<longrightarrow>
             i \<in> set need \<and> (\<exists>d\<in>D. \<exists>n. rs' ! i = reseed_onto w h alpha n (rois ! i) d))"
proof -
  obtain r_i c_j where rc: "rc = (r_i, c_j)" by (cases rc) auto
  from reseed_pair_onto[of w h hbs need pbs cost r_i c_j rs q]
  show ?thesis
  proof
    assume "reseed_pair w h hbs need pbs cost (r_i, c_j) (rs, q) = (rs, q)"
    with step rc have e: "rs' = rs" by simp
    show ?thesis unfolding e
      by (rule exI[of _ T]) (use len unt tou in simp)
  next
    assume a: "r_i < length need \<and> c_j < length pbs
      \<and> \<not> conflicts hbs (expand_detection w h (pbs ! c_j))
      \<and> reseed_pair w h hbs need pbs cost (r_i, c_j) (rs, q) =
          (rs[need ! r_i :=
             reseed_onto w h (smooth_alpha q) (poses_created q) (rs ! (need ! r_i)) (pbs ! c_j)],
           q\<lparr>poses_closed := poses_closed q @ [pose (rs ! (need ! r_i))],
             poses_created := Suc (poses_created q)\<rparr>)"
    define k where "k = need ! r_i"
    have r: "r_i < length need" using a by simp
    have kn: "k \<in> set need" using r by (simp add: k_def)
    have kT: "k \<notin> T" using fresh r rc by (simp add: k_def)
    have "pbs ! c_j \<in> set pbs" using a by simp
    then have d: "pbs ! c_j \<in> D" using a sub by blast
    have rs': "rs' = rs[k := reseed_onto w h alpha (poses_created q) (rs ! k) (pbs ! c_j)]"
      using a step rc al by (simp add: k_def)
    have l: "length rs' = length rois" using len by (simp add: rs')
    have u: "\<forall>i<length rois. i \<notin> insert k T \<longrightarrow> rs' ! i = rois ! i"
      using unt by (simp add: rs')
    have t: "\<forall>i<length rois. i \<in> insert k T \<longrightarrow>
             i \<in> set need \<and> (\<exists>d\<in>D. \<exists>n. rs' ! i = reseed_onto w h alpha n (rois ! i) d)"
    proof (rule allI, rule impI, rule impI)
      fix i assume i: "i < length rois" and m: "i \<in> insert k T"
      show "i \<in> set need \<and> (\<exists>d\<in>D. \<exists>n. rs' ! i = reseed_onto w h alpha n (rois ! i) d)"
      proof (cases "i = k")
        case True
        have "rs ! k = rois ! k" using unt i kT True by simp
        then have "rs' ! i = reseed_onto w h alpha (poses_created q) (rois ! i) (pbs ! c_j)"
          using i len True by (simp add: rs')
        then show ?thesis using kn d True by blast
      next
        case False
        then have "rs' ! i = rs ! i" by (simp add: rs')
        moreover have "i \<in> T" using m False by simp
        ultimately show ?thesis using tou i by simp
      qed
    qed
    have c: "fst rc < length need \<and> insert k T = insert (need ! fst rc) T"
      using r rc by (simp add: k_def)
    show ?thesis
      by (rule exI[of _ "insert k T"]) (intro conjI disjI2 c l u t)
  qed
qed

lemma fold_reseed_pair_exact:
  assumes dn: "distinct need"
      and dp: "distinct (map fst pairs)"
      and len: "length rs = length rois"
      and unt: "\<forall>i<length rois. i \<notin> T \<longrightarrow> rs ! i = rois ! i"
      and tou: "\<forall>i<length rois. i \<in> T \<longrightarrow>
                  i \<in> set need \<and> (\<exists>d\<in>D. \<exists>n. rs ! i = reseed_onto w h alpha n (rois ! i) d)"
      and fresh: "\<forall>r\<in>fst ` set pairs. r < length need \<longrightarrow> need ! r \<notin> T"
      and al: "smooth_alpha q = alpha"
      and sub: "\<forall>d\<in>set pbs. \<not> conflicts hbs (expand_detection w h d) \<longrightarrow> d \<in> D"
      and f: "fold (reseed_pair w h hbs need pbs cost) pairs (rs, q) = (rs', q')"
  shows "\<forall>i<length rois. rs' ! i = rois ! i
           \<or> (i \<in> set need \<and> (\<exists>d\<in>D. \<exists>n. rs' ! i = reseed_onto w h alpha n (rois ! i) d))"
  using dp len unt tou fresh al f
proof (induction pairs arbitrary: rs q T)
  case Nil
  then have "rs' = rs" by simp
  then show ?case using Nil.prems(3,4) by blast
next
  case (Cons rc pairs)
  obtain rs1 q1 where s1: "reseed_pair w h hbs need pbs cost rc (rs, q) = (rs1, q1)"
    by (cases "reseed_pair w h hbs need pbs cost rc (rs, q)") auto
  have fr: "fst rc < length need \<longrightarrow> need ! fst rc \<notin> T" using Cons.prems(5) by simp
  from reseed_pair_exact[OF Cons.prems(2,3,4) fr Cons.prems(6) sub s1]
  obtain T' where T': "T' = T \<or> (fst rc < length need \<and> T' = insert (need ! fst rc) T)"
    and l1: "length rs1 = length rois"
    and u1: "\<forall>i<length rois. i \<notin> T' \<longrightarrow> rs1 ! i = rois ! i"
    and t1: "\<forall>i<length rois. i \<in> T' \<longrightarrow>
             i \<in> set need \<and> (\<exists>d\<in>D. \<exists>n. rs1 ! i = reseed_onto w h alpha n (rois ! i) d)"
    by blast
  have a1: "smooth_alpha q1 = alpha" using reseed_pair_alpha[OF s1] Cons.prems(6) by simp
  have f1: "fold (reseed_pair w h hbs need pbs cost) pairs (rs1, q1) = (rs', q')"
    using Cons.prems(7) s1 by simp
  have dp1: "distinct (map fst pairs)" using Cons.prems(1) by simp
  have nr: "fst rc \<notin> fst ` set pairs" using Cons.prems(1) by simp
  have fresh1: "\<forall>r\<in>fst ` set pairs. r < length need \<longrightarrow> need ! r \<notin> T'"
  proof (rule ballI, rule impI)
    fix r assume r: "r \<in> fst ` set pairs" and rl: "r < length need"
    have o: "need ! r \<notin> T" using Cons.prems(5) r rl by auto
    from T' show "need ! r \<notin> T'"
    proof
      assume "T' = T" then show ?thesis using o by simp
    next
      assume b: "fst rc < length need \<and> T' = insert (need ! fst rc) T"
      have "r \<noteq> fst rc" using r nr by blast
      then have "need ! r \<noteq> need ! fst rc"
        using dn rl b by (simp add: nth_eq_iff_index_eq)
      then show ?thesis using o b by simp
    qed
  qed
  show ?case by (rule Cons.IH[OF dp1 l1 u1 t1 fresh1 a1 f1])
qed

lemma reseed_step_exact:
  assumes d: "detect env = Detections boxes"
      and r: "reseed_step env w h need (rois, p) = Inr (rois', p')"
      and dn: "distinct need"
      and dp: "distinct (map fst (assignment env (cost_matrix w h rois need
                  (filter_reserved (healthy_boxes rois) (person_boxes_of boxes)))))"
  shows "\<forall>i<length rois. rois' ! i = rois ! i
           \<or> (i \<in> set need
              \<and> (\<exists>d\<in>{d \<in> set (person_boxes_of boxes).
                        (\<forall>hb\<in>set (healthy_boxes rois). iou d hb < 0.5)
                      \<and> (\<forall>hb\<in>set (healthy_boxes rois). iou (expand_detection w h d) hb < 0.5)}.
                    \<exists>n. rois' ! i = reseed_onto w h (smooth_alpha p) n (rois ! i) d))"
proof -
  from reseed_step_fold[OF d r] show ?thesis
  proof
    assume "rois' = rois"
    then show ?thesis by simp
  next
    assume "\<exists>q. smooth_alpha q = smooth_alpha p
            \<and> fold (reseed_pair w h (healthy_boxes rois) need
                      (filter_reserved (healthy_boxes rois) (person_boxes_of boxes))
                      (cost_matrix w h rois need
                         (filter_reserved (healthy_boxes rois) (person_boxes_of boxes))))
                 (assignment env (cost_matrix w h rois need
                         (filter_reserved (healthy_boxes rois) (person_boxes_of boxes))))
                 (rois, q) = (rois', p')"
    then obtain q where q: "smooth_alpha q = smooth_alpha p"
      and f: "fold (reseed_pair w h (healthy_boxes rois) need
                      (filter_reserved (healthy_boxes rois) (person_boxes_of boxes))
                      (cost_matrix w h rois need
                         (filter_reserved (healthy_boxes rois) (person_boxes_of boxes))))
                 (assignment env (cost_matrix w h rois need
                         (filter_reserved (healthy_boxes rois) (person_boxes_of boxes))))
                 (rois, q) = (rois', p')" by blast
    show ?thesis
      by (rule fold_reseed_pair_exact[where T = "{}", OF dn dp refl _ _ _ q unreserved_sub f])
         simp_all
  qed
qed

text \<open>
  C3: the reseed step never gives a stale slot a detection reserved for a healthy ROI. The
  detections that reach the cost matrix are exactly those whose IoU with every healthy box
  (the box of an ROI with \<open>lost = 0\<close> when the step starts) is below 0.5; a matched
  detection whose expanded box has IoU at least 0.5 with a healthy box is skipped; so a
  slot that the step changes has \<open>lost = 0\<close> and there is a detection that passed both
  checks, and when every detection has IoU at least 0.5 with some healthy box (one healthy
  ROI overlapping the only detection at IoU 0.6, say) the step changes no ROI.

  What a changed slot holds is pinned to such a detection. For any assignment, the list
  returned comes from the list given by a chain of reseeds (\<open>reseed_chain\<close>), each of a slot
  needing reseed onto a detection of the frame whose own box and whose expanded box have
  IoU below 0.5 with every healthy box: no other change is made, so no slot is ever moved
  towards a reserved detection. When the assignment is one-to-one on the rows (as
  \<open>linear_sum_assignment\<close> returns it) and no slot is listed twice as needing reseed, every
  slot is either untouched or is exactly the old ROI reseeded onto one such detection: its
  bounds are the old bounds smoothed towards that detection's expanded box.
\<close>

theorem reserved_detection_never_assigned:
  "(d \<in> set (filter_reserved hbs person_boxes) \<longleftrightarrow>
      d \<in> set person_boxes \<and> (\<forall>hb\<in>set hbs. iou d hb < 0.5))
   \<and> set (healthy_boxes rois) = roi_box ` {r \<in> set rois. lost r = 0}
   \<and> ((\<exists>hb\<in>set hbs. 0.5 \<le> iou (expand_detection w h (pbs ! c_j)) hb) \<longrightarrow>
        reseed_pair w h hbs need pbs cost (r_i, c_j) (rois, p) = (rois, p))
   \<and> (detect env = Detections boxes \<and> reseed_step env w h need (rois, p) = Inr (rois', p') \<longrightarrow>
        length rois' = length rois
        \<and> (\<forall>i<length rois. rois' ! i = rois ! i
             \<or> (lost (rois' ! i) = 0
                \<and> (\<exists>d\<in>set (person_boxes_of boxes).
                      (\<forall>hb\<in>set (healthy_boxes rois). iou d hb < 0.5)
                    \<and> (\<forall>hb\<in>set (healthy_boxes rois). iou (expand_detection w h d) hb < 0.5)))))
   \<and> (detect env = Detections boxes \<and> reseed_step env w h need (rois, p) = Inr (rois', p')
        \<and> (\<forall>d\<in>set (person_boxes_of boxes). \<exists>hb\<in>set (healthy_boxes rois). 0.5 \<le> iou d hb) \<longrightarrow>
        rois' = rois)
   \<and> (detect env = Detections boxes \<and> reseed_step env w h need (rois, p) = Inr (rois', p') \<longrightarrow>
        reseed_chain w h (smooth_alpha p) (set need)
          {d \<in> set (person_boxes_of boxes).
              (\<forall>hb\<in>set (healthy_boxes rois). iou d hb < 0.5)
            \<and> (\<forall>hb\<in>set (healthy_boxes rois). iou (expand_detection w h d) hb < 0.5)}
          rois rois')
   \<and> (detect env = Detections boxes \<and> reseed_step env w h need (rois, p) = Inr (rois', p')
        \<and> distinct need
        \<and> distinct (map fst (assignment env (cost_matrix w h rois need
                     (filter_reserved (healthy_boxes rois) (person_boxes_of boxes))))) \<longrightarrow>
        (\<forall>i<length rois. rois' ! i = rois ! i
           \<or> (i \<in> set need
              \<and> (\<exists>d\<in>set (person_boxes_of boxes).
                    (\<forall>hb\<in>set (healthy_boxes rois). iou d hb < 0.5)
                  \<and> (\<forall>hb\<in>set (healthy_boxes rois). iou (expand_detection w h d) hb < 0.5)
                  \<and> (\<exists>n. rois' ! i = reseed_onto w h (smooth_alpha p) n (rois ! i) d)))))"
proof (intro conjI impI)
  show "d \<in> set (filter_reserved hbs person_boxes) \<longleftrightarrow>
      d \<in> set person_boxes \<and> (\<forall>hb\<in>set hbs. iou d hb < 0.5)"
    by (rule filter_reserved_iff)
next
  show "set (healthy_boxes rois) = roi_box ` {r \<in> set rois. lost r = 0}"
    by (rule healthy_boxes_set)
next
  assume "\<exists>hb\<in>set hbs. 0.5 \<le> iou (expand_detection w h (pbs ! c_j)) hb"
  then have "conflicts hbs (expand_detection w h (pbs ! c_j))"
    by (simp add: conflicts_iff reserved_iou_def)
  then show "reseed_pair w h hbs need pbs cost (r_i, c_j) (rois, p) = (rois, p)"
    using reseed_pair_cases[of w h hbs need pbs cost r_i c_j rois p] by blast
next
  assume a: "detect env = Detections boxes \<and> reseed_step env w h need (rois, p) = Inr (rois', p')"
  then have d: "detect env = Detections boxes"
    and r: "reseed_step env w h need (rois, p) = Inr (rois', p')" by simp_all
  show "length rois' = length rois" using reseed_step_slots[OF d r] by blast
  show "\<forall>i<length rois. rois' ! i = rois ! i
             \<or> (lost (rois' ! i) = 0
                \<and> (\<exists>d\<in>set (person_boxes_of boxes).
                      (\<forall>hb\<in>set (healthy_boxes rois). iou d hb < 0.5)
                    \<and> (\<forall>hb\<in>set (healthy_boxes rois). iou (expand_detection w h d) hb < 0.5)))"
    using reseed_step_slots[OF d r] by blast
next
  assume a: "detect env = Detections boxes \<and> reseed_step env w h need (rois, p) = Inr (rois', p')
        \<and> (\<forall>d\<in>set (person_boxes_of boxes). \<exists>hb\<in>set (healthy_boxes rois). 0.5 \<le> iou d hb)"
  then show "rois' = rois" using reseed_step_all_reserved[of env boxes w h need rois p rois' p'] by blast
next
  assume a: "detect env = Detections boxes \<and> reseed_step env w h need (rois, p) = Inr (rois', p')"
  then have d: "detect env = Detections boxes"
    and r: "reseed_step env w h need (rois, p) = Inr (rois', p')" by simp_all
  show "reseed_chain w h (smooth_alpha p) (set need)
          {d \<in> set (person_boxes_of boxes).
              (\<forall>hb\<in>set (healthy_boxes rois). iou d hb < 0.5)
            \<and> (\<forall>hb\<in>set (healthy_boxes rois). iou (expand_detection w h d) hb < 0.5)}
          rois rois'"
    by (rule reseed_step_chain[OF d r])
next
  assume a: "detect env = Detections boxes \<and> reseed_step env w h need (rois, p) = Inr (rois', p')
        \<and> distinct need
        \<and> distinct (map fst (assignment env (cost_matrix w h rois need
                     (filter_reserved (healthy_boxes rois) (person_boxes_of boxes)))))"
  then have d: "detect env = Detections boxes"
    and r: "reseed_step env w h need (rois, p) = Inr (rois', p')"
    and dn: "distinct need"
    and dp: "distinct (map fst (assignment env (cost_matrix w h rois need
                     (filter_reserved (healthy_boxes rois) (person_boxes_of boxes)))))"
    by simp_all
  show "\<forall>i<length rois. rois' ! i = rois ! i
           \<or> (i \<in> set need
              \<and> (\<exists>d\<in>set (person_boxes_of boxes).
                    (\<forall>hb\<in>set (healthy_boxes rois). iou d hb < 0.5)
                  \<and> (\<forall>hb\<in>set (healthy_boxes rois). iou (expand_detection w h d) hb < 0.5)
                  \<and> (\<exists>n. rois' ! i = reseed_onto w h (smooth_alpha p) n (rois ! i) d)))"
    using reseed_step_exact[OF d r dn dp] by blast
qed

theorem reserved_detection_never_assigned_witness:
  "iou (0, 0, 100, 60) (0, 0, 100, 100) = 0.6
   \<and> healthy_boxes example_reseed_rois = [(0, 0, 100, 100)]
   \<and> person_boxes_of [(0, 0, 100, 60, 0.9, 0)] = [(0, 0, 100, 60)]
   \<and> reseed_step
        \<lparr>estimate = (\<lambda>i. NoLandmarks), detect = Detections [(0, 0, 100, 60, 0.9, 0)],
          assignment = (\<lambda>c. [(0, 0)]), yolo_loads = True,
          estimate_retry = (\<lambda>i k. NoLandmarks), detect_retry = (\<lambda>k. Detections [])\<rparr>
        640 480 [1] (example_reseed_rois, example_processor) =
       Inr (example_reseed_rois, example_processor\<lparr>predict_calls := 1\<rparr>)
   \<and> (\<exists>rois' p'. reseed_step
        \<lparr>estimate = (\<lambda>i. NoLandmarks), detect = Detections [(0, 0, 100, 60, 0.9, 0)],
          assignment = (\<lambda>c. [(0, 0)]), yolo_loads = True,
          estimate_retry = (\<lambda>i k. NoLandmarks), detect_retry = (\<lambda>k. Detections [])\<rparr>
        640 480 [1] (example_reseed_rois, example_processor) = Inr (rois', p') \<and> rois' ! 1 = example_reseed_rois ! 1)
   \<and> reseed_step
        \<lparr>estimate = (\<lambda>i. NoLandmarks),
          detect = Detections [(0, 0, 100, 60, 0.9, 0), (210, 10, 290, 90, 0.8, 0)],
          assignment = (\<lambda>c. [(0, 0)]), yolo_loads = True,
          estimate_retry = (\<lambda>i k. NoLandmarks), detect_retry = (\<lambda>k. Detections [])\<rparr>
        640 480 [1] (example_reseed_rois, example_processor) =
       Inr ([\<lparr>rx1 = 0, ry1 = 0, rx2 = 100, ry2 = 100, lost = 0, pose = 1, overlap_streak = 0\<rparr>,
             \<lparr>rx1 = 195, ry1 = 0, rx2 = 305, ry2 = 105, lost = 0, pose = 3, overlap_streak = 0\<rparr>],
            example_processor\<lparr>predict_calls := 1, poses_closed := [2], poses_created := 4\<rparr>)
   \<and> distinct [1 :: nat]
   \<and> distinct (map fst [(0 :: nat, 0 :: nat)])
   \<and> (\<exists>d\<in>set (person_boxes_of [(0, 0, 100, 60, 0.9, 0), (210, 10, 290, 90, 0.8, 0)]).
         (\<forall>hb\<in>set (healthy_boxes example_reseed_rois). iou d hb < 0.5)
       \<and> (\<forall>hb\<in>set (healthy_boxes example_reseed_rois). iou (expand_detection 640 480 d) hb < 0.5)
       \<and> (\<exists>n. \<lparr>rx1 = 195, ry1 = 0, rx2 = 305, ry2 = 105, lost = 0, pose = 3, overlap_streak = 0\<rparr> =
                reseed_onto 640 480 (smooth_alpha example_processor) n (example_reseed_rois ! 1) d))
   \<and> reseed_onto 640 480 (smooth_alpha example_processor) 3 (example_reseed_rois ! 1) (210, 10, 290, 90) =
        \<lparr>rx1 = 195, ry1 = 0, rx2 = 305, ry2 = 105, lost = 0, pose = 3, overlap_streak = 0\<rparr>
   \<and> reseed_onto 640 480 (smooth_alpha example_processor) 3 (example_reseed_rois ! 1) (0, 0, 100, 60) =
        \<lparr>rx1 = 100, ry1 = 0, rx2 = 212, ry2 = 87, lost = 0, pose = 3, overlap_streak = 0\<rparr>"
proof -
  let ?env = "\<lparr>estimate = (\<lambda>i. NoLandmarks), detect = Detections [(0, 0, 100, 60, 0.9, 0)],
          assignment = (\<lambda>c. [(0, 0)]), yolo_loads = True,
          estimate_retry = (\<lambda>i k. NoLandmarks), detect_retry = (\<lambda>k. Detections [])\<rparr>"
  let ?env2 = "\<lparr>estimate = (\<lambda>i. NoLandmarks),
          detect = Detections [(0, 0, 100, 60, 0.9, 0), (210, 10, 290, 90, 0.8, 0)],
          assignment = (\<lambda>c. [(0, 0)]), yolo_loads = True,
          estimate_retry = (\<lambda>i k. NoLandmarks), detect_retry = (\<lambda>k. Detections [])\<rparr>"
  let ?res = "[\<lparr>rx1 = 0, ry1 = 0, rx2 = 100, ry2 = 100, lost = 0, pose = 1, overlap_streak = 0\<rparr>,
             \<lparr>rx1 = 195, ry1 = 0, rx2 = 305, ry2 = 105, lost = 0, pose = 3, overlap_streak = 0\<rparr>]"
  have i: "iou (0, 0, 100, 60) (0, 0, 100, 100) = 0.6"
    by (simp add: iou_def union_area_def box_area_def inter_area_def)
  have hb: "healthy_boxes example_reseed_rois = [(0, 0, 100, 100)]"
    by (simp add: healthy_boxes_def roi_box_def example_reseed_rois_def)
  have pb: "person_boxes_of [(0, 0, 100, 60, 0.9, 0)] = [(0, 0, 100, 60)]"
    by (simp add: py_int_def)
  have d: "detect ?env = Detections [(0, 0, 100, 60, 0.9, 0)]" by simp
  have all: "\<forall>d\<in>set (person_boxes_of [(0, 0, 100, 60, 0.9, 0)]).
               \<exists>hb\<in>set (healthy_boxes example_reseed_rois). 0.5 \<le> iou d hb"
    unfolding pb hb using i by simp
  note t = reserved_detection_never_assigned[where rois = example_reseed_rois and env = ?env
             and boxes = "[(0, 0, 100, 60, 0.9, 0)]" and need = "[1]" and p = example_processor
             and w = 640 and h = 480]
  have u: "\<And>rois' p'. reseed_step ?env 640 480 [1] (example_reseed_rois, example_processor) = Inr (rois', p')
             \<Longrightarrow> rois' = example_reseed_rois"
    using t d all by blast
  have e1: "\<exists>rois' p'. reseed_step ?env 640 480 [1] (example_reseed_rois, example_processor) = Inr (rois', p')
          \<and> rois' ! 1 = example_reseed_rois ! 1"
    using reseed_example_all_reserved u by blast
  have d2: "detect ?env2 = Detections [(0, 0, 100, 60, 0.9, 0), (210, 10, 290, 90, 0.8, 0)]" by simp
  have dn: "distinct [1 :: nat]" by simp
  have dm: "distinct (map fst [(0 :: nat, 0 :: nat)])" by simp
  have dp: "distinct (map fst (assignment ?env2 (cost_matrix 640 480 example_reseed_rois [1]
              (filter_reserved (healthy_boxes example_reseed_rois)
                 (person_boxes_of [(0, 0, 100, 60, 0.9, 0), (210, 10, 290, 90, 0.8, 0)])))))"
    by simp
  note ex = reserved_detection_never_assigned[where rois = example_reseed_rois and env = ?env2
             and boxes = "[(0, 0, 100, 60, 0.9, 0), (210, 10, 290, 90, 0.8, 0)]"
             and need = "[1]" and p = example_processor and w = 640 and h = 480
             and rois' = ?res
             and p' = "example_processor\<lparr>predict_calls := 1, poses_closed := [2], poses_created := 4\<rparr>",
             THEN conjunct2, THEN conjunct2, THEN conjunct2, THEN conjunct2, THEN conjunct2,
             THEN conjunct2, THEN mp,
             OF conjI[OF d2 conjI[OF reseed_example_free_detection conjI[OF dn dp]]],
             THEN spec, where x = 1, THEN mp]
  have l: "1 < length example_reseed_rois" by (simp add: example_reseed_rois_def)
  have ne: "?res ! 1 \<noteq> example_reseed_rois ! 1" by (simp add: example_reseed_rois_def)
  have e2: "\<exists>d\<in>set (person_boxes_of [(0, 0, 100, 60, 0.9, 0), (210, 10, 290, 90, 0.8, 0)]).
         (\<forall>hb\<in>set (healthy_boxes example_reseed_rois). iou d hb < 0.5)
       \<and> (\<forall>hb\<in>set (healthy_boxes example_reseed_rois). iou (expand_detection 640 480 d) hb < 0.5)
       \<and> (\<exists>n. ?res ! 1 =
                reseed_onto 640 480 (smooth_alpha example_processor) n (example_reseed_rois ! 1) d)"
    using ex[OF l] ne by blast
  have e3: "\<exists>d\<in>set (person_boxes_of [(0, 0, 100, 60, 0.9, 0), (210, 10, 290, 90, 0.8, 0)]).
         (\<forall>hb\<in>set (healthy_boxes example_reseed_rois). iou d hb < 0.5)
       \<and> (\<forall>hb\<in>set (healthy_boxes example_reseed_rois). iou (expand_detection 640 480 d) hb < 0.5)
       \<and> (\<exists>n. \<lparr>rx1 = 195, ry1 = 0, rx2 = 305, ry2 = 105, lost = 0, pose = 3, overlap_streak = 0\<rparr> =
                reseed_onto 640 480 (smooth_alpha example_processor) n (example_reseed_rois ! 1) d)"
    using e2 by simp
  have x1: "expand_detection 640 480 (210, 10, 290, 90) = (190, 0, 310, 110)"
    by (simp add: expand_detection_def expand_and_clip_bbox_def Let_def py_int_def)
  have s1: "smooth_box (200, 0, 300, 100) (190, 0, 310, 110) (1 / 2) = (195, 0, 305, 105)"
    by (simp add: smooth_box_def py_int_def)
  have o1: "reseed_onto 640 480 (smooth_alpha example_processor) 3 (example_reseed_rois ! 1)
              (210, 10, 290, 90) =
        \<lparr>rx1 = 195, ry1 = 0, rx2 = 305, ry2 = 105, lost = 0, pose = 3, overlap_streak = 0\<rparr>"
    by (simp add: reseed_onto_def x1 example_reseed_rois_def roi_box_def s1
          example_processor_def init_processor_def)
  have x2: "expand_detection 640 480 (0, 0, 100, 60) = (0, 0, 125, 75)"
    by (simp add: expand_detection_def expand_and_clip_bbox_def Let_def py_int_def)
  have s2: "smooth_box (200, 0, 300, 100) (0, 0, 125, 75) (1 / 2) = (100, 0, 212, 87)"
    by (simp add: smooth_box_def py_int_def)
  have o2: "reseed_onto 640 480 (smooth_alpha example_processor) 3 (example_reseed_rois ! 1)
              (0, 0, 100, 60) =
        \<lparr>rx1 = 100, ry1 = 0, rx2 = 212, ry2 = 87, lost = 0, pose = 3, overlap_streak = 0\<rparr>"
    by (simp add: reseed_onto_def x2 example_reseed_rois_def roi_box_def s2
          example_processor_def init_processor_def)
  show ?thesis
    by (intro conjI i hb pb reseed_example_all_reserved e1 reseed_example_free_detection
          dn dm e3 o1 o2)
qed


section \<open>Deduplication\<close>

lemma dedup_pair_overlap:
  assumes "i < length rs" "j < length rs" "i \<noteq> j"
      and "0.55 < iou (roi_box (rs ! i)) (roi_box (rs ! j))"
  shows "dedup_pair i j (rs, to_remove, p) =
           (let rs' = rs[i := (rs ! i)\<lparr>overlap_streak := overlap_streak (rs ! i) + 1\<rparr>,
                         j := (rs ! j)\<lparr>overlap_streak := overlap_streak (rs ! j) + 1\<rparr>]
            in if 3 \<le> overlap_streak (rs ! i) + 1 \<and> 3 \<le> overlap_streak (rs ! j) + 1
               then (rs', insert (if lost (rs ! j) \<le> lost (rs ! i) then i else j) to_remove,
                     p\<lparr>poses_closed := poses_closed p @
                          [pose (rs ! (if lost (rs ! j) \<le> lost (rs ! i) then i else j))]\<rparr>)
               else (rs', to_remove, p))"
  using assms by (simp add: dedup_pair_def Let_def)

lemma dedup_pair_apart:
  assumes "\<not> 0.55 < iou (roi_box (rs ! i)) (roi_box (rs ! j))"
  shows "dedup_pair i j (rs, to_remove, p) =
           (rs[i := (rs ! i)\<lparr>overlap_streak := 0\<rparr>,
               j := (rs[i := (rs ! i)\<lparr>overlap_streak := 0\<rparr>] ! j)\<lparr>overlap_streak := 0\<rparr>],
            to_remove, p)"
  using assms by (simp add: dedup_pair_def Let_def)

lemma dedup_outer_two:
  "dedup_outer 2 [0, Suc 0] ([a, b], {}, p) = dedup_pair 0 (Suc 0) ([a, b], {}, p)"
proof -
  obtain rs to_remove q where d: "dedup_pair 0 (Suc 0) ([a, b], {}, p) = (rs, to_remove, q)"
    by (metis prod_cases3)
  have u: "[Suc 0..<2] = [Suc 0]" "[Suc (Suc 0)..<2] = []" by (simp_all add: upt_rec)
  show ?thesis by (simp add: u d)
qed

lemma dedup_two:
  "dedup [a, b] p =
     (case dedup_pair 0 (Suc 0) ([a, b], {}, p) of (rs, to_remove, q) \<Rightarrow>
        (if to_remove \<noteq> {}
         then map snd (filter (\<lambda>(idx, r). idx \<notin> to_remove) (enumerate 0 rs))
         else rs, q))"
proof -
  have u: "[0..<length [a, b]] = [0, Suc 0]" by (simp add: upt_rec)
  have l: "length [a, b] = 2" by simp
  show ?thesis
    unfolding dedup_def Let_def u unfolding l dedup_outer_two ..
qed

lemma dedup_two_overlap:
  assumes "0.55 < iou (roi_box a) (roi_box b)"
  shows "fst (dedup [a, b] p) =
           (if 3 \<le> overlap_streak a + 1 \<and> 3 \<le> overlap_streak b + 1
            then [if lost b \<le> lost a then b\<lparr>overlap_streak := overlap_streak b + 1\<rparr>
                  else a\<lparr>overlap_streak := overlap_streak a + 1\<rparr>]
            else [a\<lparr>overlap_streak := overlap_streak a + 1\<rparr>,
                  b\<lparr>overlap_streak := overlap_streak b + 1\<rparr>])"
proof -
  have o: "0.55 < iou (roi_box ([a, b] ! 0)) (roi_box ([a, b] ! Suc 0))" using assms by simp
  have dp: "dedup_pair 0 (Suc 0) ([a, b], {}, p) =
           (let rs' = [a, b][0 := ([a, b] ! 0)\<lparr>overlap_streak := overlap_streak ([a, b] ! 0) + 1\<rparr>,
                         Suc 0 := ([a, b] ! Suc 0)\<lparr>overlap_streak := overlap_streak ([a, b] ! Suc 0) + 1\<rparr>]
            in if 3 \<le> overlap_streak ([a, b] ! 0) + 1 \<and> 3 \<le> overlap_streak ([a, b] ! Suc 0) + 1
               then (rs', insert (if lost ([a, b] ! Suc 0) \<le> lost ([a, b] ! 0) then 0 else Suc 0) {},
                     p\<lparr>poses_closed := poses_closed p @
                          [pose ([a, b] ! (if lost ([a, b] ! Suc 0) \<le> lost ([a, b] ! 0) then 0 else Suc 0))]\<rparr>)
               else (rs', {}, p))"
    by (rule dedup_pair_overlap[OF _ _ _ o]) simp_all
  show ?thesis
    unfolding dedup_two dp by (simp add: Let_def)
qed

lemma dedup_two_apart:
  assumes "\<not> 0.55 < iou (roi_box a) (roi_box b)"
  shows "fst (dedup [a, b] p) = [a\<lparr>overlap_streak := 0\<rparr>, b\<lparr>overlap_streak := 0\<rparr>]"
proof -
  have o: "\<not> 0.55 < iou (roi_box ([a, b] ! 0)) (roi_box ([a, b] ! Suc 0))" using assms by simp
  show ?thesis
    unfolding dedup_two dedup_pair_apart[OF o] by simp
qed


lemma track_rois_streaks:
  "track_rois env w h thr pid rs = Inr (outs, rs', need) \<Longrightarrow>
   map overlap_streak rs' = map overlap_streak rs"
proof (induction rs arbitrary: pid outs rs' need)
  case Nil
  then show ?case by simp
next
  case (Cons r rs)
  from Cons.prems obtain outs0 rs0 need0 where
    t: "track_rois env w h thr (Suc pid) rs = Inr (outs0, rs0, need0)"
    by (cases "estimate env pid"; cases "track_rois env w h thr (Suc pid) rs") auto
  have ih: "map overlap_streak rs0 = map overlap_streak rs" using Cons.IH[OF t] .
  show ?case using Cons.prems t ih by (cases "estimate env pid") auto
qed

lemma map_update_same:
  assumes "f x = f (xs ! k)"
  shows "map f (xs[k := x]) = map f xs"
proof (cases "k < length xs")
  case True
  with assms show ?thesis by (simp add: map_update list_update_same_conv)
next
  case False
  then have "length xs \<le> k" by simp
  then show ?thesis by (simp only: list_update_beyond)
qed

lemma reseed_pair_streaks:
  "map overlap_streak (fst (reseed_pair w h hbs need pbs cost rc s)) = map overlap_streak (fst s)"
proof -
  obtain r_i c_j where rc: "rc = (r_i, c_j)" by (cases rc) auto
  obtain rois p where s: "s = (rois, p)" by (cases s) auto
  from reseed_pair_cases[of w h hbs need pbs cost r_i c_j rois p]
  show ?thesis
  proof
    assume "reseed_pair w h hbs need pbs cost (r_i, c_j) (rois, p) = (rois, p)"
    then show ?thesis by (simp add: rc s)
  next
    assume a: "r_i < length need \<and> c_j < length pbs
      \<and> cost ! r_i ! c_j \<le> max_dist w h
      \<and> \<not> conflicts hbs (expand_detection w h (pbs ! c_j))
      \<and> reseed_pair w h hbs need pbs cost (r_i, c_j) (rois, p) =
          (rois[need ! r_i :=
             (case smooth_box (roi_box (rois ! (need ! r_i))) (expand_detection w h (pbs ! c_j))
                     (smooth_alpha p) of
                (sx1, sy1, sx2, sy2) \<Rightarrow>
                  (rois ! (need ! r_i))\<lparr>rx1 := sx1, ry1 := sy1, rx2 := sx2, ry2 := sy2,
                                         pose := poses_created p, lost := 0\<rparr>)],
           p\<lparr>poses_closed := poses_closed p @ [pose (rois ! (need ! r_i))],
             poses_created := Suc (poses_created p)\<rparr>)"
    have "overlap_streak (case smooth_box (roi_box (rois ! (need ! r_i)))
                                 (expand_detection w h (pbs ! c_j)) (smooth_alpha p) of
                (sx1, sy1, sx2, sy2) \<Rightarrow>
                  (rois ! (need ! r_i))\<lparr>rx1 := sx1, ry1 := sy1, rx2 := sx2, ry2 := sy2,
                                         pose := poses_created p, lost := 0\<rparr>)
          = overlap_streak (rois ! (need ! r_i))"
      by (simp split: prod.splits)
    then show ?thesis using a by (simp add: rc s map_update_same)
  qed
qed

lemma fold_reseed_pair_streaks:
  "map overlap_streak (fst (fold (reseed_pair w h hbs need pbs cost) pairs s))
     = map overlap_streak (fst s)"
  by (induction pairs arbitrary: s) (simp_all add: reseed_pair_streaks)

lemma reseed_step_streaks:
  assumes "reseed_step env w h need (rois, p) = Inr (rois', p')"
  shows "map overlap_streak rois' = map overlap_streak rois"
proof -
  have f: "\<And>hbs pbs cost pairs q. fold (reseed_pair w h hbs need pbs cost) pairs (rois, q) = (rois', p')
        \<Longrightarrow> map overlap_streak rois' = map overlap_streak rois"
    using fold_reseed_pair_streaks by (metis fst_conv)
  show ?thesis
    using assms f
    by (auto simp: reseed_step_def Let_def split: if_splits sum.splits prod.splits)
qed

lemma process_unfold:
  assumes "rois \<noteq> []"
      and "track_rois env w h (frame_threshold p) 0 rois = Inr (outs, t, need)"
      and "reseed_step env w h need (t, p) = Inr (m, q)"
  shows "process_multiperson_frame env p w h rois =
           Inr (outs, fst (dedup m (q\<lparr>frame_counter := frame_counter q + 1\<rparr>)),
                snd (dedup m (q\<lparr>frame_counter := frame_counter q + 1\<rparr>)))"
  using assms by (simp add: process_multiperson_frame_def Let_def split: prod.splits)

text \<open>One frame of a tracker that holds two ROIs which overlap when deduplication runs.\<close>

lemma process_two_overlapping:
  assumes t: "track_rois env w h (frame_threshold p) 0 [a, b] = Inr (outs, t, need)"
      and r: "reseed_step env w h need (t, p) = Inr ([x, y], q)"
      and o: "0.55 < iou (roi_box x) (roi_box y)"
      and pr: "process_multiperson_frame env p w h [a, b] = Inr (outs', rois', p')"
  shows "rois' = (if 3 \<le> overlap_streak a + 1 \<and> 3 \<le> overlap_streak b + 1
            then [if lost y \<le> lost x then y\<lparr>overlap_streak := overlap_streak b + 1\<rparr>
                  else x\<lparr>overlap_streak := overlap_streak a + 1\<rparr>]
            else [x\<lparr>overlap_streak := overlap_streak a + 1\<rparr>,
                  y\<lparr>overlap_streak := overlap_streak b + 1\<rparr>])"
proof -
  have "map overlap_streak [x, y] = map overlap_streak t" using r by (rule reseed_step_streaks)
  also have "\<dots> = map overlap_streak [a, b]" using t by (rule track_rois_streaks)
  finally have s: "overlap_streak x = overlap_streak a" "overlap_streak y = overlap_streak b"
    by simp_all
  have "rois' = fst (dedup [x, y] (q\<lparr>frame_counter := frame_counter q + 1\<rparr>))"
    using process_unfold[OF _ t r] pr by (metis fst_conv list.distinct(1) old.sum.inject(2) prod.inject)
  then show ?thesis unfolding dedup_two_overlap[OF o] s by simp
qed

lemma dedup_pair_streaks:
  assumes "i < length rs" "j < length rs" "i \<noteq> j"
      and "dedup_pair i j (rs, to_remove, p) = (rs', to_remove', p')"
  shows "(0.55 < iou (roi_box (rs ! i)) (roi_box (rs ! j)) \<longrightarrow>
            overlap_streak (rs' ! i) = overlap_streak (rs ! i) + 1
          \<and> overlap_streak (rs' ! j) = overlap_streak (rs ! j) + 1
          \<and> to_remove' =
              (if 3 \<le> overlap_streak (rs' ! i) \<and> 3 \<le> overlap_streak (rs' ! j)
               then insert (if lost (rs ! j) \<le> lost (rs ! i) then i else j) to_remove
               else to_remove))
       \<and> (\<not> 0.55 < iou (roi_box (rs ! i)) (roi_box (rs ! j)) \<longrightarrow>
            overlap_streak (rs' ! i) = 0 \<and> overlap_streak (rs' ! j) = 0
          \<and> to_remove' = to_remove)"
proof (cases "0.55 < iou (roi_box (rs ! i)) (roi_box (rs ! j))")
  case True
  from assms(4) show ?thesis
    unfolding dedup_pair_overlap[OF assms(1,2,3) True]
    using True assms(1,2,3) by (auto simp: Let_def split: if_splits)
next
  case False
  from assms(4) show ?thesis
    unfolding dedup_pair_apart[OF False]
    using False assms(1,2,3) by auto
qed

lemma three_frames:
  assumes s0: "0 \<le> overlap_streak a" "0 \<le> overlap_streak b"
      and t1: "track_rois e1 w h (frame_threshold p1) 0 [a, b] = Inr (o1, t1, n1)"
      and r1: "reseed_step e1 w h n1 (t1, p1) = Inr ([x1, y1], q1)"
      and i1: "0.55 < iou (roi_box x1) (roi_box y1)"
      and f1: "process_multiperson_frame e1 p1 w h [a, b] = Inr (o1', r2, p2)"
      and t2: "track_rois e2 w h (frame_threshold p2) 0 r2 = Inr (o2, t2, n2)"
      and r2: "reseed_step e2 w h n2 (t2, p2) = Inr ([x2, y2], q2)"
      and i2: "0.55 < iou (roi_box x2) (roi_box y2)"
      and f2: "process_multiperson_frame e2 p2 w h r2 = Inr (o2', r3, p3)"
      and t3: "track_rois e3 w h (frame_threshold p3) 0 r3 = Inr (o3, t3, n3)"
      and r3: "reseed_step e3 w h n3 (t3, p3) = Inr ([x3, y3], q3)"
      and i3: "0.55 < iou (roi_box x3) (roi_box y3)"
      and f3: "process_multiperson_frame e3 p3 w h r3 = Inr (o3', r4, p4)"
  shows "r2 = [x1\<lparr>overlap_streak := overlap_streak a + 1\<rparr>,
               y1\<lparr>overlap_streak := overlap_streak b + 1\<rparr>]"
    and "r3 = [x2\<lparr>overlap_streak := overlap_streak a + 2\<rparr>,
               y2\<lparr>overlap_streak := overlap_streak b + 2\<rparr>]"
    and "r4 = [if lost y3 \<le> lost x3 then y3\<lparr>overlap_streak := overlap_streak b + 3\<rparr>
               else x3\<lparr>overlap_streak := overlap_streak a + 3\<rparr>]"
proof -
  have l2: "length r2 = 2"
    using track_rois_length[OF t2] reseed_step_length[OF r2] by simp
  have l3: "length r3 = 2"
    using track_rois_length[OF t3] reseed_step_length[OF r3] by simp
  show e2: "r2 = [x1\<lparr>overlap_streak := overlap_streak a + 1\<rparr>,
                  y1\<lparr>overlap_streak := overlap_streak b + 1\<rparr>]"
    using process_two_overlapping[OF t1 r1 i1 f1] l2 by (simp split: if_splits)
  have e3': "r3 = [x2\<lparr>overlap_streak := overlap_streak a + 1 + 1\<rparr>,
                   y2\<lparr>overlap_streak := overlap_streak b + 1 + 1\<rparr>]"
    using process_two_overlapping[OF t2[unfolded e2] r2 i2 f2[unfolded e2]] l3
    by (simp split: if_splits)
  show e3: "r3 = [x2\<lparr>overlap_streak := overlap_streak a + 2\<rparr>,
                  y2\<lparr>overlap_streak := overlap_streak b + 2\<rparr>]"
    using e3' by simp
  have "r4 = [if lost y3 \<le> lost x3 then y3\<lparr>overlap_streak := overlap_streak b + 2 + 1\<rparr>
               else x3\<lparr>overlap_streak := overlap_streak a + 2 + 1\<rparr>]"
    using process_two_overlapping[OF t3[unfolded e3] r3 i3 f3[unfolded e3]] s0 by simp
  then show "r4 = [if lost y3 \<le> lost x3 then y3\<lparr>overlap_streak := overlap_streak b + 3\<rparr>
               else x3\<lparr>overlap_streak := overlap_streak a + 3\<rparr>]"
    by simp
qed

lemma dedup_two_overlap_state:
  assumes "0.55 < iou (roi_box a) (roi_box b)"
  shows "snd (dedup [a, b] p) =
           (if 3 \<le> overlap_streak a + 1 \<and> 3 \<le> overlap_streak b + 1
            then p\<lparr>poses_closed := poses_closed p @ [pose (if lost b \<le> lost a then a else b)]\<rparr>
            else p)"
proof -
  have o: "0.55 < iou (roi_box ([a, b] ! 0)) (roi_box ([a, b] ! Suc 0))" using assms by simp
  have dp: "dedup_pair 0 (Suc 0) ([a, b], {}, p) =
           (let rs' = [a, b][0 := ([a, b] ! 0)\<lparr>overlap_streak := overlap_streak ([a, b] ! 0) + 1\<rparr>,
                         Suc 0 := ([a, b] ! Suc 0)\<lparr>overlap_streak := overlap_streak ([a, b] ! Suc 0) + 1\<rparr>]
            in if 3 \<le> overlap_streak ([a, b] ! 0) + 1 \<and> 3 \<le> overlap_streak ([a, b] ! Suc 0) + 1
               then (rs', insert (if lost ([a, b] ! Suc 0) \<le> lost ([a, b] ! 0) then 0 else Suc 0) {},
                     p\<lparr>poses_closed := poses_closed p @
                          [pose ([a, b] ! (if lost ([a, b] ! Suc 0) \<le> lost ([a, b] ! 0) then 0 else Suc 0))]\<rparr>)
               else (rs', {}, p))"
    by (rule dedup_pair_overlap[OF _ _ _ o]) simp_all
  show ?thesis
    unfolding dedup_two dp by (simp add: Let_def)
qed

lemma twin_iou: "iou (roi_box (twin_a s)) (roi_box (twin_b m t)) = 9 / 10"
  by (simp add: iou_def union_area_def box_area_def inter_area_def roi_box_def twin_a_def twin_b_def)

lemma twin_track:
  assumes "frame_threshold p = 10" "m + 1 < 10"
  shows "track_rois example_twin_env 640 480 (frame_threshold p) 0 [twin_a s, twin_b m s] =
           Inr ([(0, [])], [twin_a s, twin_b (m + 1) s], [])"
  using assms
  by (simp add: example_twin_env_def remap_landmarks_def twin_a_def twin_b_def)

lemma reseed_step_nothing: "reseed_step env w h [] (rois, p) = Inr (rois, p)"
  by (simp add: reseed_step_def)

lemma twin_frame:
  assumes "frame_threshold p = 10" "m + 1 < 10" "0 \<le> m"
  shows "process_multiperson_frame example_twin_env p 640 480 [twin_a s, twin_b m s] =
           Inr ([(0, [])],
                (if 3 \<le> s + 1 then [twin_a (s + 1)] else [twin_a (s + 1), twin_b (m + 1) (s + 1)]),
                (if 3 \<le> s + 1
                 then p\<lparr>frame_counter := frame_counter p + 1, poses_closed := poses_closed p @ [2]\<rparr>
                 else p\<lparr>frame_counter := frame_counter p + 1\<rparr>))"
proof -
  have ne: "[twin_a s, twin_b m s] \<noteq> []" by simp
  have o: "0.55 < iou (roi_box (twin_a s)) (roi_box (twin_b (m + 1) s))" by (simp add: twin_iou)
  have l: "\<not> lost (twin_b (m + 1) s) \<le> lost (twin_a s)"
    using assms(3) by (simp add: twin_a_def twin_b_def)
  show ?thesis
    unfolding process_unfold[OF ne twin_track[OF assms(1,2)] reseed_step_nothing]
      dedup_two_overlap[OF o] dedup_two_overlap_state[OF o]
    using l by (simp add: twin_a_def twin_b_def)
qed

text \<open>
  C4: a comparison of two different slots whose boxes have IoU above 0.55 increments the
  \<open>overlap_streak\<close> of both, and any other comparison resets both to 0; when both streaks
  are then at least 3, the slot with the larger \<open>lost\<close> is marked for removal, the first
  index on a tie. For two ROIs this gives the result of the whole pass. And for a tracker
  that holds two ROIs, with streaks that are not negative, and finds their IoU above 0.55
  at deduplication in each of three consecutive frames, exactly one ROI remains after the
  third frame: the one with the strictly smaller \<open>lost\<close> when the counts differ, the
  second one on a tie.
\<close>

theorem dedup_streaks_and_convergence:
  "(i < length rs \<and> j < length rs \<and> i \<noteq> j
      \<and> dedup_pair i j (rs, to_remove, p) = (rs', to_remove', p') \<longrightarrow>
      (0.55 < iou (roi_box (rs ! i)) (roi_box (rs ! j)) \<longrightarrow>
            overlap_streak (rs' ! i) = overlap_streak (rs ! i) + 1
          \<and> overlap_streak (rs' ! j) = overlap_streak (rs ! j) + 1
          \<and> to_remove' =
              (if 3 \<le> overlap_streak (rs' ! i) \<and> 3 \<le> overlap_streak (rs' ! j)
               then insert (if lost (rs ! j) \<le> lost (rs ! i) then i else j) to_remove
               else to_remove))
       \<and> (\<not> 0.55 < iou (roi_box (rs ! i)) (roi_box (rs ! j)) \<longrightarrow>
            overlap_streak (rs' ! i) = 0 \<and> overlap_streak (rs' ! j) = 0
          \<and> to_remove' = to_remove))
   \<and> (0.55 < iou (roi_box a) (roi_box b) \<longrightarrow>
        fst (dedup [a, b] p) =
           (if 3 \<le> overlap_streak a + 1 \<and> 3 \<le> overlap_streak b + 1
            then [if lost b \<le> lost a then b\<lparr>overlap_streak := overlap_streak b + 1\<rparr>
                  else a\<lparr>overlap_streak := overlap_streak a + 1\<rparr>]
            else [a\<lparr>overlap_streak := overlap_streak a + 1\<rparr>,
                  b\<lparr>overlap_streak := overlap_streak b + 1\<rparr>]))
   \<and> (0 \<le> overlap_streak a \<and> 0 \<le> overlap_streak b
        \<and> track_rois e1 w h (frame_threshold p1) 0 [a, b] = Inr (o1, t1, n1)
        \<and> reseed_step e1 w h n1 (t1, p1) = Inr ([x1, y1], q1)
        \<and> 0.55 < iou (roi_box x1) (roi_box y1)
        \<and> process_multiperson_frame e1 p1 w h [a, b] = Inr (o1', r2, p2)
        \<and> track_rois e2 w h (frame_threshold p2) 0 r2 = Inr (o2, t2, n2)
        \<and> reseed_step e2 w h n2 (t2, p2) = Inr ([x2, y2], q2)
        \<and> 0.55 < iou (roi_box x2) (roi_box y2)
        \<and> process_multiperson_frame e2 p2 w h r2 = Inr (o2', r3, p3)
        \<and> track_rois e3 w h (frame_threshold p3) 0 r3 = Inr (o3, t3, n3)
        \<and> reseed_step e3 w h n3 (t3, p3) = Inr ([x3, y3], q3)
        \<and> 0.55 < iou (roi_box x3) (roi_box y3)
        \<and> process_multiperson_frame e3 p3 w h r3 = Inr (o3', r4, p4)
       \<longrightarrow> length r2 = 2 \<and> length r3 = 2 \<and> length r4 = 1
         \<and> (lost x3 < lost y3 \<longrightarrow> r4 = [x3\<lparr>overlap_streak := overlap_streak a + 3\<rparr>])
         \<and> (lost y3 < lost x3 \<longrightarrow> r4 = [y3\<lparr>overlap_streak := overlap_streak b + 3\<rparr>])
         \<and> (lost x3 = lost y3 \<longrightarrow> r4 = [y3\<lparr>overlap_streak := overlap_streak b + 3\<rparr>]))"
proof (intro conjI)
  show "i < length rs \<and> j < length rs \<and> i \<noteq> j
      \<and> dedup_pair i j (rs, to_remove, p) = (rs', to_remove', p') \<longrightarrow>
      (0.55 < iou (roi_box (rs ! i)) (roi_box (rs ! j)) \<longrightarrow>
            overlap_streak (rs' ! i) = overlap_streak (rs ! i) + 1
          \<and> overlap_streak (rs' ! j) = overlap_streak (rs ! j) + 1
          \<and> to_remove' =
              (if 3 \<le> overlap_streak (rs' ! i) \<and> 3 \<le> overlap_streak (rs' ! j)
               then insert (if lost (rs ! j) \<le> lost (rs ! i) then i else j) to_remove
               else to_remove))
       \<and> (\<not> 0.55 < iou (roi_box (rs ! i)) (roi_box (rs ! j)) \<longrightarrow>
            overlap_streak (rs' ! i) = 0 \<and> overlap_streak (rs' ! j) = 0
          \<and> to_remove' = to_remove)"
    using dedup_pair_streaks[of i rs j to_remove p rs' to_remove' p'] by blast
next
  show "0.55 < iou (roi_box a) (roi_box b) \<longrightarrow>
        fst (dedup [a, b] p) =
           (if 3 \<le> overlap_streak a + 1 \<and> 3 \<le> overlap_streak b + 1
            then [if lost b \<le> lost a then b\<lparr>overlap_streak := overlap_streak b + 1\<rparr>
                  else a\<lparr>overlap_streak := overlap_streak a + 1\<rparr>]
            else [a\<lparr>overlap_streak := overlap_streak a + 1\<rparr>,
                  b\<lparr>overlap_streak := overlap_streak b + 1\<rparr>])"
    using dedup_two_overlap[of a b p] by blast
next
  show "0 \<le> overlap_streak a \<and> 0 \<le> overlap_streak b
        \<and> track_rois e1 w h (frame_threshold p1) 0 [a, b] = Inr (o1, t1, n1)
        \<and> reseed_step e1 w h n1 (t1, p1) = Inr ([x1, y1], q1)
        \<and> 0.55 < iou (roi_box x1) (roi_box y1)
        \<and> process_multiperson_frame e1 p1 w h [a, b] = Inr (o1', r2, p2)
        \<and> track_rois e2 w h (frame_threshold p2) 0 r2 = Inr (o2, t2, n2)
        \<and> reseed_step e2 w h n2 (t2, p2) = Inr ([x2, y2], q2)
        \<and> 0.55 < iou (roi_box x2) (roi_box y2)
        \<and> process_multiperson_frame e2 p2 w h r2 = Inr (o2', r3, p3)
        \<and> track_rois e3 w h (frame_threshold p3) 0 r3 = Inr (o3, t3, n3)
        \<and> reseed_step e3 w h n3 (t3, p3) = Inr ([x3, y3], q3)
        \<and> 0.55 < iou (roi_box x3) (roi_box y3)
        \<and> process_multiperson_frame e3 p3 w h r3 = Inr (o3', r4, p4)
       \<longrightarrow> length r2 = 2 \<and> length r3 = 2 \<and> length r4 = 1
         \<and> (lost x3 < lost y3 \<longrightarrow> r4 = [x3\<lparr>overlap_streak := overlap_streak a + 3\<rparr>])
         \<and> (lost y3 < lost x3 \<longrightarrow> r4 = [y3\<lparr>overlap_streak := overlap_streak b + 3\<rparr>])
         \<and> (lost x3 = lost y3 \<longrightarrow> r4 = [y3\<lparr>overlap_streak := overlap_streak b + 3\<rparr>])"
  proof (rule impI)
    assume h: "0 \<le> overlap_streak a \<and> 0 \<le> overlap_streak b
        \<and> track_rois e1 w h (frame_threshold p1) 0 [a, b] = Inr (o1, t1, n1)
        \<and> reseed_step e1 w h n1 (t1, p1) = Inr ([x1, y1], q1)
        \<and> 0.55 < iou (roi_box x1) (roi_box y1)
        \<and> process_multiperson_frame e1 p1 w h [a, b] = Inr (o1', r2, p2)
        \<and> track_rois e2 w h (frame_threshold p2) 0 r2 = Inr (o2, t2, n2)
        \<and> reseed_step e2 w h n2 (t2, p2) = Inr ([x2, y2], q2)
        \<and> 0.55 < iou (roi_box x2) (roi_box y2)
        \<and> process_multiperson_frame e2 p2 w h r2 = Inr (o2', r3, p3)
        \<and> track_rois e3 w h (frame_threshold p3) 0 r3 = Inr (o3, t3, n3)
        \<and> reseed_step e3 w h n3 (t3, p3) = Inr ([x3, y3], q3)
        \<and> 0.55 < iou (roi_box x3) (roi_box y3)
        \<and> process_multiperson_frame e3 p3 w h r3 = Inr (o3', r4, p4)"
    have a: "0 \<le> overlap_streak a" "0 \<le> overlap_streak b"
      "track_rois e1 w h (frame_threshold p1) 0 [a, b] = Inr (o1, t1, n1)"
      "reseed_step e1 w h n1 (t1, p1) = Inr ([x1, y1], q1)"
      "0.55 < iou (roi_box x1) (roi_box y1)"
      "process_multiperson_frame e1 p1 w h [a, b] = Inr (o1', r2, p2)"
      "track_rois e2 w h (frame_threshold p2) 0 r2 = Inr (o2, t2, n2)"
      "reseed_step e2 w h n2 (t2, p2) = Inr ([x2, y2], q2)"
      "0.55 < iou (roi_box x2) (roi_box y2)"
      "process_multiperson_frame e2 p2 w h r2 = Inr (o2', r3, p3)"
      "track_rois e3 w h (frame_threshold p3) 0 r3 = Inr (o3, t3, n3)"
      "reseed_step e3 w h n3 (t3, p3) = Inr ([x3, y3], q3)"
      "0.55 < iou (roi_box x3) (roi_box y3)"
      "process_multiperson_frame e3 p3 w h r3 = Inr (o3', r4, p4)"
      using h by simp_all
    note f = three_frames[OF a]
    show "length r2 = 2 \<and> length r3 = 2 \<and> length r4 = 1
         \<and> (lost x3 < lost y3 \<longrightarrow> r4 = [x3\<lparr>overlap_streak := overlap_streak a + 3\<rparr>])
         \<and> (lost y3 < lost x3 \<longrightarrow> r4 = [y3\<lparr>overlap_streak := overlap_streak b + 3\<rparr>])
         \<and> (lost x3 = lost y3 \<longrightarrow> r4 = [y3\<lparr>overlap_streak := overlap_streak b + 3\<rparr>])"
      unfolding f by simp
  qed
qed

theorem dedup_streaks_and_convergence_witness:
  "0 \<le> overlap_streak (twin_a 0) \<and> 0 \<le> overlap_streak (twin_b 0 0)
   \<and> iou (roi_box (twin_a 0)) (roi_box (twin_b 1 0)) = 0.9
   \<and> process_multiperson_frame example_twin_env example_processor 640 480 [twin_a 0, twin_b 0 0]
       = Inr ([(0, [])], [twin_a 1, twin_b 1 1], example_processor\<lparr>frame_counter := 1\<rparr>)
   \<and> process_multiperson_frame example_twin_env (example_processor\<lparr>frame_counter := 1\<rparr>) 640 480
         [twin_a 1, twin_b 1 1]
       = Inr ([(0, [])], [twin_a 2, twin_b 2 2], example_processor\<lparr>frame_counter := 2\<rparr>)
   \<and> process_multiperson_frame example_twin_env (example_processor\<lparr>frame_counter := 2\<rparr>) 640 480
         [twin_a 2, twin_b 2 2]
       = Inr ([(0, [])], [twin_a 3],
              example_processor\<lparr>frame_counter := 3, poses_closed := [2]\<rparr>)
   \<and> lost (twin_a 2) < lost (twin_b 3 2)
   \<and> [twin_a 3] = [(twin_a 2)\<lparr>overlap_streak := overlap_streak (twin_a 0) + 3\<rparr>]"
proof -
  let ?p1 = "example_processor"
  let ?p2 = "example_processor\<lparr>frame_counter := 1\<rparr>"
  let ?p3 = "example_processor\<lparr>frame_counter := 2\<rparr>"
  let ?p4 = "example_processor\<lparr>frame_counter := 3, poses_closed := [2]\<rparr>"
  have th: "frame_threshold ?p1 = 10" "frame_threshold ?p2 = 10" "frame_threshold ?p3 = 10"
    by (simp_all add: example_processor_def init_processor_def default_frame_threshold_def)
  have s0: "0 \<le> overlap_streak (twin_a 0)" "0 \<le> overlap_streak (twin_b 0 0)"
    by (simp_all add: twin_a_def twin_b_def)
  have io: "\<And>s m t. 0.55 < iou (roi_box (twin_a s)) (roi_box (twin_b m t))"
    by (simp add: twin_iou)
  have t1: "track_rois example_twin_env 640 480 (frame_threshold ?p1) 0 [twin_a 0, twin_b 0 0]
              = Inr ([(0, [])], [twin_a 0, twin_b 1 0], [])"
    using twin_track[OF th(1), of 0 0] by simp
  have t2: "track_rois example_twin_env 640 480 (frame_threshold ?p2) 0 [twin_a 1, twin_b 1 1]
              = Inr ([(0, [])], [twin_a 1, twin_b 2 1], [])"
    using twin_track[OF th(2), of 1 1] by simp
  have t3: "track_rois example_twin_env 640 480 (frame_threshold ?p3) 0 [twin_a 2, twin_b 2 2]
              = Inr ([(0, [])], [twin_a 2, twin_b 3 2], [])"
    using twin_track[OF th(3), of 2 2] by simp
  have f1: "process_multiperson_frame example_twin_env ?p1 640 480 [twin_a 0, twin_b 0 0]
       = Inr ([(0, [])], [twin_a 1, twin_b 1 1], ?p2)"
    using twin_frame[OF th(1), of 0 0] by (simp add: example_processor_def init_processor_def)
  have f2: "process_multiperson_frame example_twin_env ?p2 640 480 [twin_a 1, twin_b 1 1]
       = Inr ([(0, [])], [twin_a 2, twin_b 2 2], ?p3)"
    using twin_frame[OF th(2), of 1 1] by simp
  have f3: "process_multiperson_frame example_twin_env ?p3 640 480 [twin_a 2, twin_b 2 2]
       = Inr ([(0, [])], [twin_a 3], ?p4)"
    using twin_frame[OF th(3), of 2 2] by (simp add: example_processor_def init_processor_def)
  have l: "lost (twin_a 2) < lost (twin_b 3 2)" by (simp add: twin_a_def twin_b_def)
  note c = dedup_streaks_and_convergence[where a = "twin_a 0" and b = "twin_b 0 0"
      and ?e1.0 = example_twin_env and ?e2.0 = example_twin_env and ?e3.0 = example_twin_env
      and w = 640 and h = 480 and ?p1.0 = ?p1 and ?p2.0 = ?p2 and ?p3.0 = ?p3 and ?p4.0 = ?p4
      and ?o1.0 = "[(0, [])]" and ?t1.0 = "[twin_a 0, twin_b 1 0]" and ?n1.0 = "[]"
      and ?x1.0 = "twin_a 0" and ?y1.0 = "twin_b 1 0" and ?q1.0 = ?p1
      and o1' = "[(0, [])]" and ?r2.0 = "[twin_a 1, twin_b 1 1]"
      and ?o2.0 = "[(0, [])]" and ?t2.0 = "[twin_a 1, twin_b 2 1]" and ?n2.0 = "[]"
      and ?x2.0 = "twin_a 1" and ?y2.0 = "twin_b 2 1" and ?q2.0 = ?p2
      and o2' = "[(0, [])]" and ?r3.0 = "[twin_a 2, twin_b 2 2]"
      and ?o3.0 = "[(0, [])]" and ?t3.0 = "[twin_a 2, twin_b 3 2]" and ?n3.0 = "[]"
      and ?x3.0 = "twin_a 2" and ?y3.0 = "twin_b 3 2" and ?q3.0 = ?p3
      and o3' = "[(0, [])]" and ?r4.0 = "[twin_a 3]"]
  note c3 = c[THEN conjunct2, THEN conjunct2, THEN mp]
  have k: "length [twin_a 1, twin_b 1 1] = 2 \<and> length [twin_a 2, twin_b 2 2] = 2
         \<and> length [twin_a 3] = 1
         \<and> (lost (twin_a 2) < lost (twin_b 3 2) \<longrightarrow> [twin_a 3] = [(twin_a 2)\<lparr>overlap_streak := overlap_streak (twin_a 0) + 3\<rparr>])
         \<and> (lost (twin_b 3 2) < lost (twin_a 2) \<longrightarrow> [twin_a 3] = [(twin_b 3 2)\<lparr>overlap_streak := overlap_streak (twin_b 0 0) + 3\<rparr>])
         \<and> (lost (twin_a 2) = lost (twin_b 3 2) \<longrightarrow> [twin_a 3] = [(twin_b 3 2)\<lparr>overlap_streak := overlap_streak (twin_b 0 0) + 3\<rparr>])"
    by (rule c3) (intro conjI s0 t1 t2 t3 f1 f2 f3 io reseed_step_nothing)
  have r: "[twin_a 3] = [(twin_a 2)\<lparr>overlap_streak := overlap_streak (twin_a 0) + 3\<rparr>]"
    using k l by (elim conjE) (erule mp)
  show ?thesis using s0 f1 f2 f3 l r by (simp add: twin_iou)
qed

end
